theory Spec2Isabelle
  imports Main "HOL-Library.Word"
begin

unbundle bit_operations_syntax

section \<open>USP Broker (src/core/usp\_broker.c): data model\<close>

text \<open>
  A C string is a \<^typ>\<open>string\<close> (the characters before the terminating NUL); a
  \<^verbatim>\<open>char *\<close> that may be NULL is a \<^typ>\<open>string option\<close>. A pointer into the
  \<^verbatim>\<open>usp_services[]\<close> array, or to a node of one of the linked lists, is the index
  of the element. The build modelled is the one with \<^verbatim>\<open>ENABLE_UDS\<close> defined and
  \<^verbatim>\<open>REMOVE_USP_BROKER\<close> not defined.
\<close>

text \<open>
  Modelled from the spec: the error codes of usp\_err\_codes.h, which is not under src/.
  Section 7 of the specification names the codes the Broker produces; every other code
  (carried by a message of a USP Service or returned by a collaborator) is
  \<open>USP_ERR_CODE n\<close>.
\<close>

datatype usp_err =
    USP_ERR_OK
  | USP_ERR_MESSAGE_NOT_UNDERSTOOD
  | USP_ERR_REQUEST_DENIED
  | USP_ERR_INTERNAL_ERROR
  | USP_ERR_RESOURCES_EXCEEDED
  | USP_ERR_COMMAND_FAILURE
  | USP_ERR_REGISTER_FAILURE
  | USP_ERR_PATH_ALREADY_REGISTERED
  | USP_ERR_DEREGISTER_FAILURE
  | USP_ERR_CODE int

subsection \<open>Character classes and string helpers\<close>

text \<open>
  Modelled from the spec: the macros \<^verbatim>\<open>IS_NUMERIC\<close>, \<^verbatim>\<open>IS_ALPHA\<close> and
  \<^verbatim>\<open>IS_ALPHA_NUMERIC\<close> of common\_defs.h, which is not under src/ ("contains only
  alphanumerics", "instance numbers"): the ASCII digits and the ASCII letters.
\<close>

definition IS_NUMERIC :: "char \<Rightarrow> bool" where
  "IS_NUMERIC c =
     (of_char (CHR ''0'') \<le> (of_char c :: nat) \<and> (of_char c :: nat) \<le> of_char (CHR ''9''))"

definition IS_ALPHA :: "char \<Rightarrow> bool" where
  "IS_ALPHA c =
     ((of_char (CHR ''a'') \<le> (of_char c :: nat) \<and> (of_char c :: nat) \<le> of_char (CHR ''z'')) \<or>
      (of_char (CHR ''A'') \<le> (of_char c :: nat) \<and> (of_char c :: nat) \<le> of_char (CHR ''Z'')))"

definition IS_ALPHA_NUMERIC :: "char \<Rightarrow> bool" where
  "IS_ALPHA_NUMERIC c = (IS_ALPHA c \<or> IS_NUMERIC c)"

text \<open>
  \<^verbatim>\<open>strchr(s, c)\<close> for a character \<open>c\<close> other than NUL: the rest of the string from
  the first \<open>c\<close> on, or NULL.
\<close>

fun strchr :: "string \<Rightarrow> char \<Rightarrow> string option" where
  "strchr [] c = None"
| "strchr (x # xs) c = (if x = c then Some (x # xs) else strchr xs c)"

text \<open>
  \<^verbatim>\<open>strncmp(s, t, n) != 0\<close>: the two strings differ within their first \<open>n\<close>
  characters (a string that ends earlier differs at its terminator).
\<close>

definition strncmp_differs :: "string \<Rightarrow> string \<Rightarrow> nat \<Rightarrow> bool" where
  "strncmp_differs s t n = (take n s \<noteq> take n t)"

subsection \<open>ValidateUspServicePath\<close>

definition DM_ROOT :: string where
  "DM_ROOT = ''Device.''"

text \<open>The loop over every character of the path: true when a character is refused.\<close>

fun has_bad_char :: "string \<Rightarrow> bool" where
  "has_bad_char [] = False"
| "has_bad_char (c # cs) =
     (if \<not> IS_ALPHA_NUMERIC c \<and> c \<noteq> CHR ''.'' then True else has_bad_char cs)"

lemma strchr_length: "strchr s c = Some r \<Longrightarrow> length r \<le> length s"
  by (induction s) (auto split: if_splits)

text \<open>
  The loop over the path delimiters: \<open>p\<close> is the pointer returned by \<^verbatim>\<open>strchr\<close>;
  \<^verbatim>\<open>p++\<close> moves to the character after the delimiter, which is the terminating NUL
  (not numeric) when the delimiter is the last character. True when an instance number
  is found.
\<close>

function has_instance_number :: "string option \<Rightarrow> bool" where
  "has_instance_number None = False"
| "has_instance_number (Some p) =
     (let p1 = tl p in
      if (case p1 of [] \<Rightarrow> False | d # _ \<Rightarrow> IS_NUMERIC d) then True
      else has_instance_number (strchr p1 (CHR ''.'')))"
  by pat_completeness auto
termination
proof (relation "measure (\<lambda>p. case p of None \<Rightarrow> 0 | Some s \<Rightarrow> Suc (length s))")
  show "wf (measure (\<lambda>p. case p of None \<Rightarrow> 0 | Some s \<Rightarrow> Suc (length s)))"
    by simp
next
  fix p :: string and x :: string
  assume x: "x = tl p"
  show "(strchr x (CHR ''.''), Some p)
          \<in> measure (\<lambda>p. case p of None \<Rightarrow> 0 | Some s \<Rightarrow> Suc (length s))"
  proof (cases "strchr x (CHR ''.'')")
    case None
    then show ?thesis by simp
  next
    case (Some r)
    from strchr_length [OF Some] have "length r \<le> length (tl p)" using x by simp
    moreover have "strchr x (CHR ''.'') \<noteq> None \<Longrightarrow> x \<noteq> []" by auto
    then have "p \<noteq> []" using Some x by auto
    ultimately show ?thesis using Some by (cases p) auto
  qed
qed

text \<open>
  \<^verbatim>\<open>path[len-1]\<close> is read only after the path was found to start with
  \<^verbatim>\<open>"Device."\<close>, so \<open>len\<close> is at least 7 there.
\<close>

definition ValidateUspServicePath :: "string \<Rightarrow> usp_err" where
  "ValidateUspServicePath path =
     (if strncmp_differs path DM_ROOT (length DM_ROOT) then USP_ERR_REGISTER_FAILURE
      else if path ! (length path - 1) \<noteq> CHR ''.'' then USP_ERR_REGISTER_FAILURE
      else if has_bad_char path then USP_ERR_REGISTER_FAILURE
      else if has_instance_number (strchr path (CHR ''.'')) then USP_ERR_REGISTER_FAILURE
      else USP_ERR_OK)"

subsection \<open>Formatting\<close>

text \<open>
  Modelled from the spec: the macro \<^verbatim>\<open>USP_SNPRINTF\<close> of common\_defs.h, which is
  not under src/. It is \<^verbatim>\<open>snprintf\<close>: of the formatted text, the first
  \<open>len - 1\<close> characters are written to the buffer. \<open>printf_d\<close> and \<open>printf_u\<close>
  are the conversions \<^verbatim>\<open>%d\<close> and \<^verbatim>\<open>%u\<close>.
\<close>

definition USP_SNPRINTF :: "nat \<Rightarrow> string \<Rightarrow> string" where
  "USP_SNPRINTF len formatted = take (len - 1) formatted"

definition digit_char :: "nat \<Rightarrow> char" where
  "digit_char d = ''0123456789'' ! d"

function printf_u :: "nat \<Rightarrow> string" where
  "printf_u n = (if n < 10 then [digit_char n] else printf_u (n div 10) @ [digit_char (n mod 10)])"
  by pat_completeness auto
termination
  by (relation "measure (\<lambda>n. n)") auto

definition printf_d :: "int \<Rightarrow> string" where
  "printf_d i = (if i < 0 then CHR ''-'' # printf_u (nat (- i)) else printf_u (nat i))"

subsection \<open>Connections\<close>

text \<open>
  Modelled from the spec: the type \<^verbatim>\<open>mtp_conn_t\<close> of mtp\_exec.h and the functions
  \<^verbatim>\<open>DM_EXEC_CopyMTPConnection\<close> and \<^verbatim>\<open>DM_EXEC_FreeMTPConnection\<close> of dm\_exec.c,
  none of them under src/. A connection has the fields the Broker reads (the protocol,
  whether a reply-to is specified, the UDS path type); the remaining transport details
  are one opaque handle. \<open>DM_EXEC_CopyMTPConnection src\<close> is the value the destination
  has after the copy; releasing is recorded as an event (see below).
\<close>

datatype mtp_protocol_t = kMtpProtocol_None | kMtpProtocol_UDS | kMtpProtocol_Other nat

datatype uds_path_t =
  kUdsPathType_Invalid | kUdsPathType_BrokersAgent | kUdsPathType_BrokersController

record mtp_conn_t =
  protocol :: mtp_protocol_t
  is_reply_to_specified :: bool
  uds_path_type :: uds_path_t
  handle :: nat

definition DM_EXEC_CopyMTPConnection :: "mtp_conn_t \<Rightarrow> mtp_conn_t" where
  "DM_EXEC_CopyMTPConnection src = src"

subsection \<open>USP messages\<close>

text \<open>
  Modelled from the spec: the protobuf-c message types of usp-msg.pb-c.h, which is not
  under src/ (section 6, wire protocol). A \<^verbatim>\<open>oneof\<close> is a datatype whose constructor
  is the case enumeration and whose argument is the pointer of that case, \<open>None\<close> when
  it is NULL. Message content the Broker never inspects is an opaque string.
\<close>

datatype msg_type_t =
    MSG_TYPE_ERROR | MSG_TYPE_GET | MSG_TYPE_GET_RESP | MSG_TYPE_NOTIFY | MSG_TYPE_SET
  | MSG_TYPE_SET_RESP | MSG_TYPE_OPERATE | MSG_TYPE_OPERATE_RESP | MSG_TYPE_ADD
  | MSG_TYPE_ADD_RESP | MSG_TYPE_DELETE | MSG_TYPE_DELETE_RESP | MSG_TYPE_GET_SUPPORTED_DM
  | MSG_TYPE_GET_SUPPORTED_DM_RESP | MSG_TYPE_GET_INSTANCES | MSG_TYPE_GET_INSTANCES_RESP
  | MSG_TYPE_NOTIFY_RESP | MSG_TYPE_GET_SUPPORTED_PROTO | MSG_TYPE_GET_SUPPORTED_PROTO_RESP
  | MSG_TYPE_REGISTER | MSG_TYPE_REGISTER_RESP | MSG_TYPE_DEREGISTER | MSG_TYPE_DEREGISTER_RESP

record usp_header =
  msg_id :: "string option"
  msg_type :: msg_type_t

record usp_register =
  allow_partial :: bool
  reg_paths :: "string list"

record usp_oper_complete =
  obj_path :: string
  command_name :: string
  oc_command_key :: string

datatype usp_notification =
    NOTIFICATION_OPER_COMPLETE usp_oper_complete
  | NOTIFICATION_OTHER string

record usp_notify =
  notify_subscription_id :: string
  send_resp :: bool
  notification :: usp_notification

record usp_operate =
  command :: string
  op_command_key :: string
  op_send_resp :: bool
  input_args :: "(string \<times> string) list"

record usp_get_supported_dm =
  obj_paths :: "string list"
  first_level_only :: bool
  return_commands :: bool
  return_events :: bool
  return_params :: bool

datatype usp_request =
    REQ_TYPE_REGISTER "usp_register option"
  | REQ_TYPE_NOTIFY "usp_notify option"
  | REQ_TYPE_OPERATE usp_operate
  | REQ_TYPE_GET_SUPPORTED_DM usp_get_supported_dm
  | REQ_TYPE_OTHER string

datatype oper_status =
    OPER_STATUS_OPER_SUCCESS string
  | OPER_STATUS_OPER_FAILURE usp_err

record registered_path_result =
  requested_path :: string
  oper_status :: oper_status

datatype operation_resp =
    OPERATION_RESP_REQ_OBJ_PATH string
  | OPERATION_RESP_REQ_OUTPUT_ARGS "(string \<times> string) list"
  | OPERATION_RESP_CMD_FAILURE usp_err
  | OPERATION_RESP_NOT_SET

record operation_result =
  executed_command :: string
  operation_resp :: operation_resp

datatype usp_response =
    RESP_TYPE_REGISTER_RESP "registered_path_result list"
  | RESP_TYPE_OPERATE_RESP "operation_result list option"
  | RESP_TYPE_OTHER string

datatype usp_body =
    MSG_BODY_REQUEST "usp_request option"
  | MSG_BODY_RESPONSE "usp_response option"
  | MSG_BODY_ERROR usp_err
  | MSG_BODY_NOT_SET

record usp_msg =
  header :: "usp_header option"
  body :: "usp_body option"

text \<open>
  Modelled from the spec: \<^verbatim>\<open>ERROR_RESP_CreateSingle\<close>,
  \<^verbatim>\<open>MSG_HANDLER_CreateRequestMsg\<close> and \<^verbatim>\<open>MSG_HANDLER_CreateResponseMsg\<close>, which
  are not under src/: a single ERROR message carrying the code, and a request or
  response with the given message id and type. The text of the error message is left
  out.
\<close>

definition ERROR_RESP_CreateSingle :: "string option \<Rightarrow> usp_err \<Rightarrow> usp_msg" where
  "ERROR_RESP_CreateSingle mid err =
     \<lparr>header = Some \<lparr>msg_id = mid, msg_type = MSG_TYPE_ERROR\<rparr>,
      body = Some (MSG_BODY_ERROR err)\<rparr>"

definition MSG_HANDLER_CreateRequestMsg :: "string \<Rightarrow> msg_type_t \<Rightarrow> usp_request \<Rightarrow> usp_msg" where
  "MSG_HANDLER_CreateRequestMsg mid ty req =
     \<lparr>header = Some \<lparr>msg_id = Some mid, msg_type = ty\<rparr>,
      body = Some (MSG_BODY_REQUEST (Some req))\<rparr>"

definition MSG_HANDLER_CreateResponseMsg :: "string option \<Rightarrow> msg_type_t \<Rightarrow> usp_response \<Rightarrow> usp_msg" where
  "MSG_HANDLER_CreateResponseMsg mid ty resp =
     \<lparr>header = Some \<lparr>msg_id = mid, msg_type = ty\<rparr>,
      body = Some (MSG_BODY_RESPONSE (Some resp))\<rparr>"

subsection \<open>The table of USP Services\<close>

record subs_map_t =
  broker_instance :: int
  smap_path :: string
  service_instance :: int
  subscription_id :: string

record req_map_t =
  request_instance :: int
  rmap_path :: string
  command_key :: string

record msg_map_t =
  broker_msg_id :: string
  original_msg_id :: string
  originator :: string
  mtp_conn :: mtp_conn_t

text \<open>
  The \<^verbatim>\<open>endpoint_id\<close> of a slot that is not in use is NULL; it is read only after
  \<^verbatim>\<open>instance != INVALID\<close> was tested (and for a log message), so it is a plain string
  here, empty in an unused slot.
\<close>

record usp_service_t =
  us_instance :: int
  endpoint_id :: string
  controller_mtp :: mtp_conn_t
  agent_mtp :: mtp_conn_t
  group_id :: int
  has_controller :: bool
  gsdm_msg_id :: "string option"
  registered_paths :: "string list"
  subs_map :: "subs_map_t list"
  req_map :: "req_map_t list"
  msg_map :: "msg_map_t list"

text \<open>
  The state of the Broker: the array \<^verbatim>\<open>usp_services[MAX_USP_SERVICES]\<close> (a list
  with one element per slot) and the static counter of \<^verbatim>\<open>CalcBrokerMessageId\<close>.
\<close>

record broker_state =
  usp_services :: "usp_service_t list"
  count :: "32 word"

text \<open>
  Modelled from the spec: the constant \<^verbatim>\<open>INVALID\<close> of common\_defs.h, which is not
  under src/ ("\<open>INVALID\<close> means the slot is free"; instance numbers are positive).
\<close>

definition INVALID :: int where
  "INVALID = - 1"

subsection \<open>Collaborators\<close>

text \<open>
  The calls the Broker makes to code that is not under src/ (the message queue, the
  data model store, the Subscription and Request tables, the connection store), in the
  order they are made. A handler returns the list of its calls next to the new state.
  Log and trace output (\<^verbatim>\<open>USP_LOG_Info\<close>, \<^verbatim>\<open>USP_ERR_SetMessage\<close>,
  \<^verbatim>\<open>PROTO_TRACE_ProtobufMessage\<close>) and the calls of \<^verbatim>\<open>USP_MALLOC\<close>,
  \<^verbatim>\<open>USP_STRDUP\<close> and \<^verbatim>\<open>USP_FREE\<close> are not recorded.
\<close>

datatype dm_node_type_t = kDMNodeType_Object_SingleInstance | kDMNodeType_Object_MultiInstance

datatype event =
    MSG_HANDLER_QueueMessage string usp_msg mtp_conn_t
  | MSG_HANDLER_QueueErrorMessage usp_err string mtp_conn_t "string option"
  | DEVICE_SUBSCRIPTION_RouteNotification usp_msg int
  | DEVICE_REQUEST_DeleteInstance int
  | DM_EXEC_FreeMTPConnection mtp_conn_t
  | USP_REGISTER_GroupVendorHooks_Dummy int
  | USP_DM_InformInstance string
  | DM_PRIV_AddSchemaPath string dm_node_type_t
  | Node_SetGroup string int bool
  | DM_EXEC_SendRequestAndWaitForResponse string usp_msg mtp_conn_t msg_type_t
  | USP_SIGNAL_OperationStatus int string
  | USP_SIGNAL_OperationComplete int usp_err "(string \<times> string) list"

text \<open>
  What the collaborators answer, and the build-time constants of vendor\_defs.h: the
  parameters of the model. \<open>clock\<close> is \<^verbatim>\<open>time(NULL)\<close> at the call that produces
  the message id with the given counter value. \<open>send_request_and_wait\<close> is what
  \<^verbatim>\<open>DM_EXEC_SendRequestAndWaitForResponse\<close> returns (\<open>None\<close> for NULL, the timeout):
  the Broker's tables are there while the call waits for the response, and messages of
  the Service may arrive before it, so the answer is a function of the state of the
  Broker at the call as well as of the arguments.
\<close>

record env =
  MAX_DM_PATH :: nat
  MAX_MSG_ID_LEN :: nat
  clock :: "32 word \<Rightarrow> 32 word"
  queue_message_result :: "string \<Rightarrow> usp_msg \<Rightarrow> mtp_conn_t \<Rightarrow> usp_err"
  route_notification_result :: "usp_msg \<Rightarrow> int \<Rightarrow> usp_err"
  exists_in_schema :: "string \<Rightarrow> bool"
  find_unused_group_id :: int
  inform_instance_result :: "string \<Rightarrow> usp_err"
  add_schema_path_ok :: "string \<Rightarrow> bool"
  get_parameter_value :: "string \<Rightarrow> usp_err \<times> string"
  send_request_and_wait :: "broker_state \<Rightarrow> string \<Rightarrow> usp_msg \<Rightarrow> mtp_conn_t \<Rightarrow> usp_msg option"
  validate_usp_response :: "usp_msg \<Rightarrow> usp_err"
  is_path_match :: "string \<Rightarrow> string \<Rightarrow> bool"

subsection \<open>Searching the tables\<close>

text \<open>
  The loops that return a pointer to the first element satisfying a test, or NULL.
\<close>

fun find_first :: "('a \<Rightarrow> bool) \<Rightarrow> 'a list \<Rightarrow> nat option" where
  "find_first P [] = None"
| "find_first P (x # xs) = (if P x then Some 0 else map_option Suc (find_first P xs))"

text \<open>Unlinking the node at a position from a linked list.\<close>

definition unlink :: "'a list \<Rightarrow> nat \<Rightarrow> 'a list" where
  "unlink xs k = take k xs @ drop (Suc k) xs"

definition FindUspServiceByEndpoint :: "usp_service_t list \<Rightarrow> string \<Rightarrow> nat option" where
  "FindUspServiceByEndpoint svcs eid =
     find_first (\<lambda>us. us_instance us \<noteq> INVALID \<and> endpoint_id us = eid) svcs"

definition FindUspServiceByInstance :: "usp_service_t list \<Rightarrow> int \<Rightarrow> nat option" where
  "FindUspServiceByInstance svcs inst = find_first (\<lambda>us. us_instance us = inst) svcs"

definition FindUspServiceByGroupId :: "usp_service_t list \<Rightarrow> int \<Rightarrow> nat option" where
  "FindUspServiceByGroupId svcs gid =
     find_first (\<lambda>us. us_instance us \<noteq> INVALID \<and> group_id us = gid) svcs"

definition FindUnusedUspService :: "usp_service_t list \<Rightarrow> nat option" where
  "FindUnusedUspService svcs = find_first (\<lambda>us. us_instance us = INVALID) svcs"

fun max_instance_loop :: "usp_service_t list \<Rightarrow> int \<Rightarrow> int" where
  "max_instance_loop [] max_instance = max_instance"
| "max_instance_loop (us # rest) max_instance =
     max_instance_loop rest
       (if us_instance us \<noteq> INVALID \<and> us_instance us > max_instance then us_instance us
        else max_instance)"

definition CalcNextUspServiceInstanceNumber :: "usp_service_t list \<Rightarrow> int" where
  "CalcNextUspServiceInstanceNumber svcs = max_instance_loop svcs 0 + 1"

definition SubsMap_Add :: "subs_map_t list \<Rightarrow> int \<Rightarrow> string \<Rightarrow> string \<Rightarrow> int \<Rightarrow> subs_map_t list" where
  "SubsMap_Add sm service_inst path subs_id broker_inst =
     sm @ [\<lparr>broker_instance = broker_inst, smap_path = path,
            service_instance = service_inst, subscription_id = subs_id\<rparr>]"

definition SubsMap_Remove :: "subs_map_t list \<Rightarrow> nat \<Rightarrow> subs_map_t list" where
  "SubsMap_Remove sm k = unlink sm k"

definition SubsMap_FindByUspServiceSubsId :: "subs_map_t list \<Rightarrow> string \<Rightarrow> nat option" where
  "SubsMap_FindByUspServiceSubsId sm subs_id =
     find_first (\<lambda>smap. subscription_id smap = subs_id) sm"

definition SubsMap_FindByBrokerInstanceAndPath :: "subs_map_t list \<Rightarrow> int \<Rightarrow> string \<Rightarrow> nat option" where
  "SubsMap_FindByBrokerInstanceAndPath sm broker_inst path =
     find_first (\<lambda>smap. broker_instance smap = broker_inst \<and> smap_path smap = path) sm"

definition SubsMap_FindByPath :: "env \<Rightarrow> subs_map_t list \<Rightarrow> string \<Rightarrow> nat option" where
  "SubsMap_FindByPath e sm path = find_first (\<lambda>smap. is_path_match e path (smap_path smap)) sm"

definition ReqMap_Add :: "req_map_t list \<Rightarrow> int \<Rightarrow> string \<Rightarrow> string \<Rightarrow> req_map_t list \<times> nat" where
  "ReqMap_Add rm request_inst path key =
     (rm @ [\<lparr>request_instance = request_inst, rmap_path = path, command_key = key\<rparr>],
      length rm)"

definition ReqMap_Remove :: "req_map_t list \<Rightarrow> nat \<Rightarrow> req_map_t list" where
  "ReqMap_Remove rm k = unlink rm k"

definition ReqMap_Find :: "req_map_t list \<Rightarrow> string \<Rightarrow> string \<Rightarrow> nat option" where
  "ReqMap_Find rm path key =
     find_first (\<lambda>rmap. rmap_path rmap = path \<and> command_key rmap = key) rm"

definition MsgMap_Add :: "msg_map_t list \<Rightarrow> string \<Rightarrow> string \<Rightarrow> string \<Rightarrow> mtp_conn_t \<Rightarrow> msg_map_t list" where
  "MsgMap_Add mm orig_id broker_id eid mtpc =
     mm @ [\<lparr>broker_msg_id = broker_id, original_msg_id = orig_id, originator = eid,
            mtp_conn = DM_EXEC_CopyMTPConnection mtpc\<rparr>]"

text \<open>
  Modelled from the spec: the string vector of str\_vector.c, which is not under src/
  (\<^verbatim>\<open>registered_paths\<close> is an ordered collection of path strings):
  \<^verbatim>\<open>STR_VECTOR_Find\<close> returns the index of the first string equal to the one looked
  for, or \<open>INVALID\<close>; \<^verbatim>\<open>STR_VECTOR_Add\<close> appends; \<^verbatim>\<open>STR_VECTOR_Destroy\<close> empties.
\<close>

definition STR_VECTOR_Find :: "string list \<Rightarrow> string \<Rightarrow> int" where
  "STR_VECTOR_Find sv s = (case find_first (\<lambda>x. x = s) sv of None \<Rightarrow> INVALID | Some k \<Rightarrow> int k)"

definition STR_VECTOR_Add :: "string list \<Rightarrow> string \<Rightarrow> string list" where
  "STR_VECTOR_Add sv s = sv @ [s]"

definition STR_VECTOR_Destroy :: "string list \<Rightarrow> string list" where
  "STR_VECTOR_Destroy sv = []"

text \<open>
  \<^verbatim>\<open>MsgMap_Remove\<close>: the entry is unlinked and its connection is released, which
  is a call to \<^verbatim>\<open>DM_EXEC_FreeMTPConnection\<close>.
\<close>

definition MsgMap_Remove :: "msg_map_t list \<Rightarrow> nat \<Rightarrow> msg_map_t list \<times> event list" where
  "MsgMap_Remove mm k = (unlink mm k, [DM_EXEC_FreeMTPConnection (mtp_conn (mm ! k))])"

definition MsgMap_Find :: "msg_map_t list \<Rightarrow> string \<Rightarrow> nat option" where
  "MsgMap_Find mm mid = find_first (\<lambda>m. broker_msg_id m = mid) mm"

definition set_service :: "broker_state \<Rightarrow> nat \<Rightarrow> usp_service_t \<Rightarrow> broker_state" where
  "set_service st i us = st\<lparr>usp_services := (usp_services st)[i := us]\<rparr>"

section \<open>The operations of the Broker\<close>

subsection \<open>Message ids\<close>

definition broker_unique_str :: string where
  "broker_unique_str = ''BROKER''"

definition DEVICE_SERVICE_ROOT :: string where
  "DEVICE_SERVICE_ROOT = ''Device.USPServices.USPService''"

text \<open>
  \<^verbatim>\<open>CalcBrokerMessageId\<close>: the static counter is an \<^verbatim>\<open>unsigned\<close>, incremented
  (with wrap-around) before it is printed with \<^verbatim>\<open>%d\<close>, that is as a signed value.
\<close>

definition CalcBrokerMessageId :: "env \<Rightarrow> broker_state \<Rightarrow> nat \<Rightarrow> string \<times> broker_state" where
  "CalcBrokerMessageId e st len =
     (let c = count st + 1 in
      (USP_SNPRINTF len
         (broker_unique_str @ ''-'' @ printf_d (sint c) @ ''-'' @ printf_u (unat (clock e c))),
       st\<lparr>count := c\<rparr>))"

subsection \<open>Adding a USP Service\<close>

definition release_if_connected :: "mtp_conn_t \<Rightarrow> event list" where
  "release_if_connected dest =
     (if protocol dest \<noteq> kMtpProtocol_None then [DM_EXEC_FreeMTPConnection dest] else [])"

text \<open>
  \<^verbatim>\<open>UpdateUspServiceMRT\<close>. \<open>None\<close> is \<^verbatim>\<open>TERMINATE_BAD_CASE\<close>: the process ends.
\<close>

definition UpdateUspServiceMRT :: "usp_service_t \<Rightarrow> mtp_conn_t \<Rightarrow> (usp_service_t \<times> event list) option" where
  "UpdateUspServiceMRT us mtpc =
     (if protocol mtpc = kMtpProtocol_UDS then
        (case uds_path_type mtpc of
           kUdsPathType_BrokersAgent \<Rightarrow>
             Some (us\<lparr>agent_mtp := DM_EXEC_CopyMTPConnection mtpc\<rparr>,
                   release_if_connected (agent_mtp us))
         | kUdsPathType_BrokersController \<Rightarrow>
             Some (us\<lparr>controller_mtp := DM_EXEC_CopyMTPConnection mtpc\<rparr>,
                   release_if_connected (controller_mtp us))
         | kUdsPathType_Invalid \<Rightarrow> None)
      else
        Some (us\<lparr>controller_mtp := DM_EXEC_CopyMTPConnection mtpc,
                 agent_mtp := DM_EXEC_CopyMTPConnection mtpc\<rparr>,
              release_if_connected (controller_mtp us) @ release_if_connected (agent_mtp us)))"

text \<open>The slot after \<^verbatim>\<open>memset(us, 0, sizeof(usp_service_t))\<close>.\<close>

definition zero_mtp_conn :: mtp_conn_t where
  "zero_mtp_conn =
     \<lparr>protocol = kMtpProtocol_None, is_reply_to_specified = False,
      uds_path_type = kUdsPathType_Invalid, handle = 0\<rparr>"

definition zero_service :: usp_service_t where
  "zero_service =
     \<lparr>us_instance = 0, endpoint_id = [], controller_mtp = zero_mtp_conn,
      agent_mtp = zero_mtp_conn, group_id = 0, has_controller = False, gsdm_msg_id = None,
      registered_paths = [], subs_map = [], req_map = [], msg_map = []\<rparr>"

text \<open>
  \<^verbatim>\<open>USP_BROKER_Init\<close>, when the registrations into the data model succeed
  (\<open>reg_err\<close> is their combined result): every slot is marked as unused.
\<close>

definition USP_BROKER_Init :: "usp_err \<Rightarrow> broker_state \<Rightarrow> usp_err \<times> broker_state" where
  "USP_BROKER_Init reg_err st =
     (if reg_err \<noteq> USP_ERR_OK then (USP_ERR_INTERNAL_ERROR, st)
      else (USP_ERR_OK,
            st\<lparr>usp_services :=
                 map (\<lambda>us. zero_service\<lparr>us_instance := INVALID\<rparr>) (usp_services st)\<rparr>))"

text \<open>
  \<^verbatim>\<open>AddUspService\<close>: the result is the new state, the calls made and the slot of the
  new Service (\<open>None\<close> for NULL).
\<close>

definition AddUspService :: "env \<Rightarrow> broker_state \<Rightarrow> string \<Rightarrow> mtp_conn_t \<Rightarrow> (broker_state \<times> event list \<times> nat option) option" where
  "AddUspService e st eid mtpc =
     (case FindUnusedUspService (usp_services st) of
        None \<Rightarrow> Some (st, [], None)
      | Some i \<Rightarrow>
          let gid = find_unused_group_id e in
          if gid = INVALID then Some (st, [], None)
          else
            let cleared = (usp_services st)[i := zero_service];
                us = zero_service
                       \<lparr>us_instance := CalcNextUspServiceInstanceNumber cleared,
                        endpoint_id := eid,
                        group_id := gid,
                        has_controller := False,
                        registered_paths := [],
                        subs_map := [],
                        req_map := [],
                        msg_map := [],
                        controller_mtp := zero_mtp_conn\<lparr>protocol := kMtpProtocol_None\<rparr>,
                        agent_mtp := zero_mtp_conn\<lparr>protocol := kMtpProtocol_None\<rparr>\<rparr>
            in (case UpdateUspServiceMRT us mtpc of
                  None \<Rightarrow> None
                | Some (us1, evs) \<Rightarrow>
                    Some (set_service st i us1,
                          USP_REGISTER_GroupVendorHooks_Dummy gid # evs, Some i)))"

text \<open>The code at the label \<^verbatim>\<open>exit\<close> of \<^verbatim>\<open>USP_BROKER_AddUspService\<close>.\<close>

definition mark_has_controller :: "usp_service_t \<Rightarrow> mtp_conn_t \<Rightarrow> usp_service_t" where
  "mark_has_controller us mtpc =
     (if protocol mtpc = kMtpProtocol_UDS \<and> uds_path_type mtpc = kUdsPathType_BrokersAgent
      then us\<lparr>has_controller := True\<rparr> else us)"

definition USP_BROKER_AddUspService :: "env \<Rightarrow> broker_state \<Rightarrow> string \<Rightarrow> mtp_conn_t \<Rightarrow> (usp_err \<times> broker_state \<times> event list) option" where
  "USP_BROKER_AddUspService e st eid mtpc =
     (case FindUspServiceByEndpoint (usp_services st) eid of
        Some i \<Rightarrow>
          (case UpdateUspServiceMRT (usp_services st ! i) mtpc of
             None \<Rightarrow> None
           | Some (us1, evs) \<Rightarrow>
               Some (USP_ERR_OK, set_service st i (mark_has_controller us1 mtpc), evs))
      | None \<Rightarrow>
          (case AddUspService e st eid mtpc of
             None \<Rightarrow> None
           | Some (st1, evs, None) \<Rightarrow> Some (USP_ERR_RESOURCES_EXCEEDED, st1, evs)
           | Some (st1, evs, Some i) \<Rightarrow>
               let path = USP_SNPRINTF (MAX_DM_PATH e)
                            (DEVICE_SERVICE_ROOT @ ''.'' @
                             printf_d (us_instance (usp_services st1 ! i)))
               in if inform_instance_result e path \<noteq> USP_ERR_OK
                  then Some (USP_ERR_INTERNAL_ERROR, st1, evs @ [USP_DM_InformInstance path])
                  else Some (USP_ERR_OK,
                             set_service st1 i (mark_has_controller (usp_services st1 ! i) mtpc),
                             evs @ [USP_DM_InformInstance path])))"

subsection \<open>Looking a Service up\<close>

text \<open>
  \<^verbatim>\<open>USP_BROKER_GetUspServiceInstance\<close>. The flag \<^verbatim>\<open>ONLY_CONTROLLER_CONNECTIONS\<close> is
  defined in usp\_broker.h, which is not under src/: it is the first parameter. The
  test is the source's: two bitwise ANDs, the second with the value (0 or 1) of the
  comparison \<^verbatim>\<open>us->has_controller==false\<close>.
\<close>

definition USP_BROKER_GetUspServiceInstance :: "32 word \<Rightarrow> usp_service_t list \<Rightarrow> string \<Rightarrow> 32 word \<Rightarrow> int" where
  "USP_BROKER_GetUspServiceInstance only_controller_connections svcs eid flags =
     (case FindUspServiceByEndpoint svcs eid of
        None \<Rightarrow> INVALID
      | Some i \<Rightarrow>
          if ((flags AND only_controller_connections) AND
              (if has_controller (svcs ! i) = False then 1 else 0)) \<noteq> 0
          then INVALID
          else us_instance (svcs ! i))"

subsection \<open>Completing an Operate request\<close>

definition DeleteMatchingOperateRequest :: "env \<Rightarrow> usp_service_t \<Rightarrow> string \<Rightarrow> string \<Rightarrow> string \<Rightarrow> usp_service_t \<times> event list" where
  "DeleteMatchingOperateRequest e us obj_p command_n key =
     (let command_path = USP_SNPRINTF (MAX_DM_PATH e) (obj_p @ command_n) in
      case ReqMap_Find (req_map us) command_path key of
        None \<Rightarrow> (us, [])
      | Some k \<Rightarrow>
          (us\<lparr>req_map := ReqMap_Remove (req_map us) k\<rparr>,
           [DEVICE_REQUEST_DeleteInstance (request_instance (req_map us ! k))]))"

subsection \<open>Notifications\<close>

text \<open>
  The test at the head of \<^verbatim>\<open>USP_BROKER_HandleNotification\<close>: the Notify of the
  message, or \<open>None\<close> when the message is "invalid or inconsistent".
\<close>

definition notify_of :: "usp_msg \<Rightarrow> usp_notify option" where
  "notify_of usp =
     (case body usp of
        Some (MSG_BODY_REQUEST (Some (REQ_TYPE_NOTIFY (Some n)))) \<Rightarrow> Some n
      | _ \<Rightarrow> None)"

text \<open>
  The label \<^verbatim>\<open>exit\<close> of the handler: \<^verbatim>\<open>usp->header->msg_id\<close> is read when an
  error is to be reported; \<open>None\<close> is the read through a NULL header.
\<close>

definition notification_exit :: "broker_state \<Rightarrow> event list \<Rightarrow> usp_err \<Rightarrow> usp_msg \<Rightarrow> string \<Rightarrow> mtp_conn_t \<Rightarrow> (broker_state \<times> event list) option" where
  "notification_exit st evs err usp eid mtpc =
     (if err \<noteq> USP_ERR_OK then
        (case header usp of
           None \<Rightarrow> None
         | Some h \<Rightarrow> Some (st, evs @ [MSG_HANDLER_QueueErrorMessage err eid mtpc (msg_id h)]))
      else Some (st, evs))"

definition USP_BROKER_HandleNotification :: "env \<Rightarrow> broker_state \<Rightarrow> usp_msg \<Rightarrow> string \<Rightarrow> mtp_conn_t \<Rightarrow> (broker_state \<times> event list) option" where
  "USP_BROKER_HandleNotification e st usp eid mtpc =
     (case notify_of usp of
        None \<Rightarrow> notification_exit st [] USP_ERR_REQUEST_DENIED usp eid mtpc
      | Some notify \<Rightarrow>
          if send_resp notify = True
          then notification_exit st [] USP_ERR_REQUEST_DENIED usp eid mtpc
          else
            (case FindUspServiceByEndpoint (usp_services st) eid of
               None \<Rightarrow> notification_exit st [] USP_ERR_REQUEST_DENIED usp eid mtpc
             | Some i \<Rightarrow>
                 let us = usp_services st ! i in
                 (case SubsMap_FindByUspServiceSubsId (subs_map us) (notify_subscription_id notify) of
                    None \<Rightarrow> notification_exit st [] USP_ERR_REQUEST_DENIED usp eid mtpc
                  | Some k \<Rightarrow>
                      let smap = subs_map us ! k;
                          err = route_notification_result e usp (broker_instance smap);
                          evs = [DEVICE_SUBSCRIPTION_RouteNotification usp (broker_instance smap)]
                      in (case notification notify of
                            NOTIFICATION_OPER_COMPLETE op \<Rightarrow>
                              let (us1, evs1) =
                                    DeleteMatchingOperateRequest e us (obj_path op)
                                      (command_name op) (oc_command_key op)
                              in notification_exit (set_service st i us1) (evs @ evs1) err usp eid mtpc
                          | NOTIFICATION_OTHER x \<Rightarrow>
                              notification_exit st evs err usp eid mtpc))))"

subsection \<open>Passing requests through and responses back\<close>

definition is_response_or_error :: "usp_body \<Rightarrow> bool" where
  "is_response_or_error b =
     (case b of MSG_BODY_RESPONSE r \<Rightarrow> True | MSG_BODY_ERROR x \<Rightarrow> True | _ \<Rightarrow> False)"

definition AttemptPassThruForResponse :: "broker_state \<Rightarrow> usp_msg \<Rightarrow> string \<Rightarrow> bool \<times> broker_state \<times> event list" where
  "AttemptPassThruForResponse st usp eid =
     (case body usp of
        None \<Rightarrow> (False, st, [])
      | Some b \<Rightarrow>
          if \<not> is_response_or_error b then (False, st, [])
          else
            (case header usp of
               None \<Rightarrow> (False, st, [])
             | Some h \<Rightarrow>
                 (case msg_id h of
                    None \<Rightarrow> (False, st, [])
                  | Some mid \<Rightarrow>
                      (case FindUspServiceByEndpoint (usp_services st) eid of
                         None \<Rightarrow> (False, st, [])
                       | Some i \<Rightarrow>
                           let us = usp_services st ! i in
                           (case MsgMap_Find (msg_map us) mid of
                              None \<Rightarrow> (False, st, [])
                            | Some k \<Rightarrow>
                                let m = msg_map us ! k;
                                    usp1 = usp\<lparr>header := Some (h\<lparr>msg_id := Some (original_msg_id m)\<rparr>)\<rparr>;
                                    (mm1, freed) = MsgMap_Remove (msg_map us) k
                                in (True,
                                    set_service st i (us\<lparr>msg_map := mm1\<rparr>),
                                    MSG_HANDLER_QueueMessage (originator m) usp1 (mtp_conn m) #
                                    freed))))))"

text \<open>
  \<^verbatim>\<open>PassThruToUspService\<close>: the result is the error code, the new state, the message
  as the function leaves it and the calls made. \<open>None\<close> is a read through a NULL header
  or message id.
\<close>

definition PassThruToUspService :: "env \<Rightarrow> broker_state \<Rightarrow> nat \<Rightarrow> usp_msg \<Rightarrow> string \<Rightarrow> mtp_conn_t \<Rightarrow> (usp_err \<times> broker_state \<times> usp_msg \<times> event list) option" where
  "PassThruToUspService e st i usp eid mtpc =
     (case header usp of
        None \<Rightarrow> None
      | Some h \<Rightarrow>
          let (broker_id, st1) = CalcBrokerMessageId e st (MAX_MSG_ID_LEN e);
              us = usp_services st1 ! i;
              usp1 = usp\<lparr>header := Some (h\<lparr>msg_id := Some broker_id\<rparr>)\<rparr>;
              err = queue_message_result e (endpoint_id us) usp1 (controller_mtp us);
              evs = [MSG_HANDLER_QueueMessage (endpoint_id us) usp1 (controller_mtp us)]
          in if err \<noteq> USP_ERR_OK then Some (err, st1, usp1, evs)
             else
               (case msg_id h of
                  None \<Rightarrow> None
                | Some orig \<Rightarrow>
                    Some (USP_ERR_OK,
                          set_service st1 i
                            (us\<lparr>msg_map := MsgMap_Add (msg_map us) orig broker_id eid mtpc\<rparr>),
                          usp1, evs)))"

text \<open>
  The specification's reading of "contains no instance number": no \<open>.\<close> is immediately
  followed by a digit.
\<close>

fun dot_digit :: "string \<Rightarrow> bool" where
  "dot_digit [] = False"
| "dot_digit [c] = False"
| "dot_digit (c # d # cs) = ((c = CHR ''.'' \<and> IS_NUMERIC d) \<or> dot_digit (d # cs))"

subsection \<open>Registering paths\<close>

text \<open>
  \<^verbatim>\<open>RegisterUspServicePath\<close>. The first loop runs over every slot of the table, in
  use or not. \<open>exists_in_schema e p\<close> is the test
  \<^verbatim>\<open>DATA_MODEL_GetPathProperties(p, ...) & PP_EXISTS_IN_SCHEMA\<close>.
\<close>

definition RegisterUspServicePath :: "env \<Rightarrow> usp_service_t list \<Rightarrow> nat \<Rightarrow> string \<Rightarrow> usp_service_t list \<times> usp_err" where
  "RegisterUspServicePath e svcs i req_path =
     (case find_first (\<lambda>p. STR_VECTOR_Find (registered_paths p) req_path \<noteq> INVALID) svcs of
        Some j \<Rightarrow> (svcs, USP_ERR_PATH_ALREADY_REGISTERED)
      | None \<Rightarrow>
          let err = ValidateUspServicePath req_path in
          if err \<noteq> USP_ERR_OK then (svcs, err)
          else if exists_in_schema e req_path then (svcs, USP_ERR_PATH_ALREADY_REGISTERED)
          else (svcs[i := (svcs ! i)
                  \<lparr>registered_paths := STR_VECTOR_Add (registered_paths (svcs ! i)) req_path\<rparr>],
                USP_ERR_OK))"

definition CreateRegisterResp :: "string option \<Rightarrow> registered_path_result list \<Rightarrow> usp_msg" where
  "CreateRegisterResp mid results =
     MSG_HANDLER_CreateResponseMsg mid MSG_TYPE_REGISTER_RESP (RESP_TYPE_REGISTER_RESP results)"

definition AddRegisterResp_RegisteredPathResult :: "registered_path_result list \<Rightarrow> string \<Rightarrow> usp_err \<Rightarrow> registered_path_result list" where
  "AddRegisterResp_RegisteredPathResult results req_path err =
     results @
     [\<lparr>requested_path = req_path,
       oper_status = (if err = USP_ERR_OK then OPER_STATUS_OPER_SUCCESS req_path
                      else OPER_STATUS_OPER_FAILURE err)\<rparr>]"

definition CreateBroker_GetSupportedDMReq :: "string \<Rightarrow> string list \<Rightarrow> usp_msg" where
  "CreateBroker_GetSupportedDMReq mid sv =
     MSG_HANDLER_CreateRequestMsg mid MSG_TYPE_GET_SUPPORTED_DM
       (REQ_TYPE_GET_SUPPORTED_DM
          \<lparr>obj_paths = sv, first_level_only = False, return_commands = True,
           return_events = True, return_params = True\<rparr>)"

text \<open>
  One round of the last loop of \<^verbatim>\<open>QueueGetSupportedDMToUspService\<close>: the path is
  added to the schema as a single instance object and, when a node is returned, the node
  is given the group id of the Service and is not writable.
\<close>

definition add_schema_node :: "env \<Rightarrow> int \<Rightarrow> string \<Rightarrow> event list" where
  "add_schema_node e gid path =
     DM_PRIV_AddSchemaPath path kDMNodeType_Object_SingleInstance #
     (if add_schema_path_ok e path then [Node_SetGroup path gid False] else [])"

definition QueueGetSupportedDMToUspService :: "env \<Rightarrow> broker_state \<Rightarrow> nat \<Rightarrow> broker_state \<times> event list" where
  "QueueGetSupportedDMToUspService e st i =
     (let us = usp_services st ! i in
      if registered_paths us = [] then (st, [])
      else if protocol (controller_mtp us) = kMtpProtocol_None then (st, [])
      else
        let (mid, st1) = CalcBrokerMessageId e st (MAX_MSG_ID_LEN e);
            us1 = us\<lparr>gsdm_msg_id := Some mid\<rparr>;
            req = CreateBroker_GetSupportedDMReq mid (registered_paths us1)
        in (set_service st1 i us1,
            MSG_HANDLER_QueueMessage (endpoint_id us1) req (controller_mtp us1) #
            concat (map (add_schema_node e (group_id us1)) (registered_paths us1))))"

text \<open>
  The loop of \<^verbatim>\<open>USP_BROKER_HandleRegister\<close> over the paths of the message: the
  result is the table, the response (\<^verbatim>\<open>resp\<close>) and the count of paths at the label
  \<^verbatim>\<open>exit\<close>. \<open>count\<close> is incremented for every path that did not end the loop,
  registered or not.
\<close>

fun register_paths_loop :: "env \<Rightarrow> string option \<Rightarrow> bool \<Rightarrow> nat \<Rightarrow> string list \<Rightarrow> usp_service_t list \<Rightarrow> registered_path_result list \<Rightarrow> nat \<Rightarrow> usp_service_t list \<times> usp_msg \<times> nat" where
  "register_paths_loop e mid ap i [] svcs results cnt = (svcs, CreateRegisterResp mid results, cnt)"
| "register_paths_loop e mid ap i (p # ps) svcs results cnt =
     (let (svcs1, err) = RegisterUspServicePath e svcs i p in
      if err \<noteq> USP_ERR_OK \<and> ap = False
      then (svcs1[i := (svcs1 ! i)
               \<lparr>registered_paths := STR_VECTOR_Destroy (registered_paths (svcs1 ! i))\<rparr>],
            ERROR_RESP_CreateSingle mid err, 0)
      else register_paths_loop e mid ap i ps svcs1
             (AddRegisterResp_RegisteredPathResult results p err) (cnt + 1))"

text \<open>
  The test at the head of \<^verbatim>\<open>USP_BROKER_HandleRegister\<close>: the Register of the
  message, or \<open>None\<close> when the message is "invalid or inconsistent".
\<close>

definition register_of :: "usp_msg \<Rightarrow> usp_register option" where
  "register_of usp =
     (case body usp of
        Some (MSG_BODY_REQUEST (Some (REQ_TYPE_REGISTER (Some reg)))) \<Rightarrow> Some reg
      | _ \<Rightarrow> None)"

text \<open>
  The handler from the creation of the Register response to its end, for the Service in
  slot \<open>i\<close>; \<open>evs\<close> are the calls made before.
\<close>

definition register_paths :: "env \<Rightarrow> broker_state \<Rightarrow> event list \<Rightarrow> string option \<Rightarrow> usp_register \<Rightarrow> nat \<Rightarrow> string \<Rightarrow> mtp_conn_t \<Rightarrow> broker_state \<times> event list" where
  "register_paths e st evs mid reg i eid mtpc =
     (let (svcs1, resp, cnt) =
            register_paths_loop e mid (allow_partial reg) i (reg_paths reg) (usp_services st) [] 0;
          st1 = st\<lparr>usp_services := svcs1\<rparr>;
          evs1 = evs @ [MSG_HANDLER_QueueMessage eid resp mtpc]
      in if cnt > 0
         then (let (st2, evs2) = QueueGetSupportedDMToUspService e st1 i in (st2, evs1 @ evs2))
         else (st1, evs1))"

text \<open>
  \<^verbatim>\<open>USP_BROKER_HandleRegister\<close>. Every path through the handler reads
  \<^verbatim>\<open>usp->header->msg_id\<close> to create its response: \<open>None\<close> is the read through a NULL
  header, or the end of the process in \<^verbatim>\<open>UpdateUspServiceMRT\<close>.
\<close>

definition USP_BROKER_HandleRegister :: "env \<Rightarrow> broker_state \<Rightarrow> usp_msg \<Rightarrow> string \<Rightarrow> mtp_conn_t \<Rightarrow> (broker_state \<times> event list) option" where
  "USP_BROKER_HandleRegister e st usp eid mtpc =
     (case header usp of
        None \<Rightarrow> None
      | Some h \<Rightarrow>
          let mid = msg_id h;
              reply = (\<lambda>err. MSG_HANDLER_QueueMessage eid (ERROR_RESP_CreateSingle mid err) mtpc)
          in
          (case register_of usp of
             None \<Rightarrow> Some (st, [reply USP_ERR_MESSAGE_NOT_UNDERSTOOD])
           | Some reg \<Rightarrow>
               if reg_paths reg = [] then Some (st, [reply USP_ERR_REGISTER_FAILURE])
               else
                 (case FindUspServiceByEndpoint (usp_services st) eid of
                    Some i \<Rightarrow>
                      if registered_paths (usp_services st ! i) \<noteq> []
                      then Some (st, [reply USP_ERR_REGISTER_FAILURE])
                      else Some (register_paths e st [] mid reg i eid mtpc)
                  | None \<Rightarrow>
                      (case AddUspService e st eid mtpc of
                         None \<Rightarrow> None
                       | Some (st1, evs, None) \<Rightarrow>
                           Some (st1, evs @ [reply USP_ERR_REGISTER_FAILURE])
                       | Some (st1, evs, Some i) \<Rightarrow>
                           let path = USP_SNPRINTF (MAX_DM_PATH e)
                                        (DEVICE_SERVICE_ROOT @ ''.'' @
                                         printf_d (us_instance (usp_services st1 ! i)))
                           in if inform_instance_result e path \<noteq> USP_ERR_OK
                              then Some (st1, evs @ [USP_DM_InformInstance path,
                                                     reply USP_ERR_REGISTER_FAILURE])
                              else Some (register_paths e st1
                                           (evs @ [USP_DM_InformInstance path])
                                           mid reg i eid mtpc)))))"

section \<open>Example data\<close>

text \<open>
  A Broker with two slots: the USP Service \<open>S1\<close>, connected on the Broker's controller
  socket, which owns \<open>Device.Foo.\<close>, has one subscription, one active command and one
  request passed through for the Controller \<open>C1\<close>; and an unused slot. The collaborators
  of \<open>example_env\<close> accept every call; the schema holds \<open>Device.LocalAgent.\<close>.
\<close>

definition conn_controller :: mtp_conn_t where
  "conn_controller =
     \<lparr>protocol = kMtpProtocol_UDS, is_reply_to_specified = True,
      uds_path_type = kUdsPathType_BrokersController, handle = 1\<rparr>"

definition conn_agent :: mtp_conn_t where
  "conn_agent =
     \<lparr>protocol = kMtpProtocol_UDS, is_reply_to_specified = True,
      uds_path_type = kUdsPathType_BrokersAgent, handle = 2\<rparr>"

definition conn_c1 :: mtp_conn_t where
  "conn_c1 =
     \<lparr>protocol = kMtpProtocol_Other 0, is_reply_to_specified = True,
      uds_path_type = kUdsPathType_Invalid, handle = 3\<rparr>"

definition unused_slot :: usp_service_t where
  "unused_slot = zero_service\<lparr>us_instance := INVALID\<rparr>"

definition service_S1 :: usp_service_t where
  "service_S1 =
     \<lparr>us_instance = 1, endpoint_id = ''S1'', controller_mtp = conn_controller,
      agent_mtp = zero_mtp_conn, group_id = 1, has_controller = False, gsdm_msg_id = None,
      registered_paths = [''Device.Foo.''],
      subs_map = [\<lparr>broker_instance = 4, smap_path = ''Device.Foo.Reboot()'',
                   service_instance = 9, subscription_id = ''1-BROKER''\<rparr>],
      req_map = [\<lparr>request_instance = 7, rmap_path = ''Device.Foo.Reboot()'',
                  command_key = ''K''\<rparr>],
      msg_map = [\<lparr>broker_msg_id = ''BROKER-1-100'', original_msg_id = ''m1'',
                  originator = ''C1'', mtp_conn = conn_c1\<rparr>]\<rparr>"

definition example_state :: broker_state where
  "example_state = \<lparr>usp_services = [service_S1, unused_slot], count = 1\<rparr>"

definition example_env :: env where
  "example_env =
     \<lparr>MAX_DM_PATH = 256, MAX_MSG_ID_LEN = 64, clock = (\<lambda>c. 100),
      queue_message_result = (\<lambda>eid m c. USP_ERR_OK),
      route_notification_result = (\<lambda>m b. USP_ERR_OK),
      exists_in_schema = (\<lambda>p. p = ''Device.LocalAgent.''),
      find_unused_group_id = 2,
      inform_instance_result = (\<lambda>p. USP_ERR_OK),
      add_schema_path_ok = (\<lambda>p. True),
      get_parameter_value = (\<lambda>p. (USP_ERR_OK, ''K2'')),
      send_request_and_wait = (\<lambda>st eid m c. None),
      validate_usp_response = (\<lambda>m. USP_ERR_OK),
      is_path_match = (\<lambda>p s. p = s)\<rparr>"

section \<open>The specification's words, for comparison with the code\<close>

text \<open>
  What section 4.A of the specification says \<open>update_mtp\<close> and the marking of
  \<open>has_controller\<close> do to a Service when a connection arrives for an endpoint that is
  already known: the role-appropriate handle is replaced (both handles on a transport
  that does not distinguish the roles), \<open>has_controller\<close> is set for a connection on the
  Broker's agent socket; \<open>released_spec\<close> are the handles released.
\<close>

definition update_mtp_spec :: "usp_service_t \<Rightarrow> mtp_conn_t \<Rightarrow> usp_service_t" where
  "update_mtp_spec us mtpc =
     (if protocol mtpc = kMtpProtocol_UDS then
        (if uds_path_type mtpc = kUdsPathType_BrokersAgent
         then us\<lparr>agent_mtp := mtpc, has_controller := True\<rparr>
         else us\<lparr>controller_mtp := mtpc\<rparr>)
      else us\<lparr>controller_mtp := mtpc, agent_mtp := mtpc\<rparr>)"

definition released_spec :: "usp_service_t \<Rightarrow> mtp_conn_t \<Rightarrow> mtp_conn_t list" where
  "released_spec us mtpc =
     filter (\<lambda>c. protocol c \<noteq> kMtpProtocol_None)
       (if protocol mtpc = kMtpProtocol_UDS then
          (if uds_path_type mtpc = kUdsPathType_BrokersAgent then [agent_mtp us]
           else [controller_mtp us])
        else [controller_mtp us, agent_mtp us])"

text \<open>
  An active command whose path is as long as a buffer of \<open>MAX_DM_PATH = 256\<close> characters
  holds (255 characters).
\<close>

definition long_command :: string where
  "long_command = ''Device.'' @ replicate 246 (CHR ''a'') @ ''()''"

definition service_long :: usp_service_t where
  "service_long = service_S1\<lparr>req_map := [\<lparr>request_instance = 7, rmap_path = long_command, command_key = ''K''\<rparr>]\<rparr>"

text \<open>
  The three conditions of section 4.F of the specification under which a Notify is
  accepted (the message is a Notify, \<open>send_resp\<close> is false, the sender is a known Service
  and its \<open>subs_map\<close> has an entry with the subscription id of the notification), and the
  calls that route a notification.
\<close>

definition notify_accepted_spec :: "broker_state \<Rightarrow> usp_msg \<Rightarrow> string \<Rightarrow> bool" where
  "notify_accepted_spec st usp eid =
     (\<exists>n i. notify_of usp = Some n \<and> \<not> send_resp n \<and>
            FindUspServiceByEndpoint (usp_services st) eid = Some i \<and>
            (\<exists>m \<in> set (subs_map (usp_services st ! i)).
               subscription_id m = notify_subscription_id n))"

definition is_route :: "event \<Rightarrow> bool" where
  "is_route ev = (case ev of DEVICE_SUBSCRIPTION_RouteNotification u b \<Rightarrow> True | _ \<Rightarrow> False)"


definition example_notify :: "bool \<Rightarrow> usp_msg" where
  "example_notify sr =
     \<lparr>header = Some \<lparr>msg_id = Some ''n1'', msg_type = MSG_TYPE_NOTIFY\<rparr>,
      body = Some (MSG_BODY_REQUEST (Some (REQ_TYPE_NOTIFY (Some
               \<lparr>notify_subscription_id = ''1-BROKER'', send_resp = sr,
                notification = NOTIFICATION_OTHER ''value_change''\<rparr>))))\<rparr>"

text \<open>
  The invariant of the registry that the code keeps: no path is owned by two Services
  (nor twice by one), the paths being compared as strings, the way
  \<^verbatim>\<open>RegisterUspServicePath\<close> looks for an owner. \<open>owned svcs p\<close>: some slot of the table has \<open>p\<close> among its
  registered paths. \<open>path_refused\<close>: the path is owned already, or fails the textual
  validation, or exists in the schema. \<open>clear_paths\<close> and \<open>add_path\<close> are the two changes
  a Register makes to the table.
\<close>

definition no_shared_paths :: "usp_service_t list \<Rightarrow> bool" where
  "no_shared_paths svcs = distinct (concat (map registered_paths svcs))"

definition owned :: "usp_service_t list \<Rightarrow> string \<Rightarrow> bool" where
  "owned svcs p = (p \<in> set (concat (map registered_paths svcs)))"

definition path_refused :: "env \<Rightarrow> usp_service_t list \<Rightarrow> string \<Rightarrow> bool" where
  "path_refused e svcs p =
     (owned svcs p \<or> ValidateUspServicePath p \<noteq> USP_ERR_OK \<or> exists_in_schema e p)"

definition clear_paths :: "usp_service_t list \<Rightarrow> nat \<Rightarrow> usp_service_t list" where
  "clear_paths svcs i = svcs[i := (svcs ! i)\<lparr>registered_paths := []\<rparr>]"

definition add_path :: "usp_service_t list \<Rightarrow> nat \<Rightarrow> string \<Rightarrow> usp_service_t list" where
  "add_path svcs i p = svcs[i := (svcs ! i)\<lparr>registered_paths := registered_paths (svcs ! i) @ [p]\<rparr>]"

text \<open>
  What every function of usp\_broker.c that is not modelled above does to the
  \<open>registered_paths\<close> of the slots. The vectors are written at six places of the file:
  in \<^verbatim>\<open>AddUspService\<close> (\<^verbatim>\<open>STR_VECTOR_Init\<close>), in \<^verbatim>\<open>RegisterUspServicePath\<close>
  (\<^verbatim>\<open>STR_VECTOR_Add\<close>) and in \<^verbatim>\<open>USP_BROKER_HandleRegister\<close>
  (\<^verbatim>\<open>STR_VECTOR_Destroy\<close>), which are modelled; and in \<^verbatim>\<open>DeRegisterUspServicePath\<close>
  (\<^verbatim>\<open>STR_VECTOR_RemoveByIndex\<close>: Deregister), in \<^verbatim>\<open>FreeUspService\<close> and in
  \<^verbatim>\<open>HandleUspServiceAgentDisconnect\<close> (\<^verbatim>\<open>STR_VECTOR_Destroy\<close>: disconnect, stop).
  So a step of Deregister, of a disconnect, of \<^verbatim>\<open>USP_BROKER_Stop\<close>, of the handler of the
  GetSupportedDM response, of a vendor hook or of any other function of the file leaves
  the table with as many slots, and in each slot every path at most as often as before:
  paths are kept or removed, none is added. Nothing is said about the other fields.
\<close>

definition paths_kept_or_removed :: "usp_service_t list \<Rightarrow> usp_service_t list \<Rightarrow> bool" where
  "paths_kept_or_removed svcs svcs' =
     list_all2
       (\<lambda>us us'. \<forall>p\<in>set (registered_paths us').
          count_list (registered_paths us') p \<le> count_list (registered_paths us) p)
       svcs svcs'"

text \<open>
  The states that the Broker reaches from \<^verbatim>\<open>USP_BROKER_Init\<close>, whatever the
  collaborators answer: by the operations modelled above, and (\<open>other\<close>) by every other
  function of the file.
\<close>

inductive reachable :: "broker_state \<Rightarrow> bool" where
  init: "reachable (snd (USP_BROKER_Init USP_ERR_OK st0))"
| add_service:
    "reachable st \<Longrightarrow> USP_BROKER_AddUspService e st eid mtpc = Some (err, st', evs) \<Longrightarrow>
     reachable st'"
| register:
    "reachable st \<Longrightarrow> USP_BROKER_HandleRegister e st usp eid mtpc = Some (st', evs) \<Longrightarrow>
     reachable st'"
| notification:
    "reachable st \<Longrightarrow> USP_BROKER_HandleNotification e st usp eid mtpc = Some (st', evs) \<Longrightarrow>
     reachable st'"
| response:
    "reachable st \<Longrightarrow> AttemptPassThruForResponse st usp eid = (b, st', evs) \<Longrightarrow>
     reachable st'"
| passthru:
    "reachable st \<Longrightarrow> PassThruToUspService e st i usp eid mtpc = Some (err, st', usp', evs) \<Longrightarrow>
     reachable st'"
| other:
    "reachable st \<Longrightarrow> paths_kept_or_removed (usp_services st) (usp_services st') \<Longrightarrow>
     reachable st'"

text \<open>
  A second example: next to \<open>S1\<close>, the Service \<open>S2\<close> is connected and has not registered
  any path.
\<close>

definition service_S2 :: usp_service_t where
  "service_S2 =
     \<lparr>us_instance = 2, endpoint_id = ''S2'',
      controller_mtp = conn_controller\<lparr>handle := 4\<rparr>,
      agent_mtp = zero_mtp_conn, group_id = 2, has_controller = False, gsdm_msg_id = None,
      registered_paths = [], subs_map = [], req_map = [], msg_map = []\<rparr>"

definition register_state :: broker_state where
  "register_state = \<lparr>usp_services = [service_S1, service_S2], count = 1\<rparr>"

text \<open>
  The table after \<open>S1\<close> has registered \<^verbatim>\<open>Device.Foo.\<close> in the initial state of two
  slots (\<open>first_state\<close>), and after \<open>S2\<close> has then registered \<^verbatim>\<open>Device.Foo.Bar.\<close>
  (\<open>overlap_state\<close>); for the second Service the next unused group id is 3
  (\<open>next_group_env\<close>).
\<close>

definition first_service :: usp_service_t where
  "first_service =
     \<lparr>us_instance = 1, endpoint_id = ''S1'', controller_mtp = conn_controller,
      agent_mtp = zero_mtp_conn, group_id = 2, has_controller = False,
      gsdm_msg_id = Some ''BROKER-2-100'', registered_paths = [''Device.Foo.''],
      subs_map = [], req_map = [], msg_map = []\<rparr>"

definition second_service :: usp_service_t where
  "second_service =
     \<lparr>us_instance = 2, endpoint_id = ''S2'', controller_mtp = conn_controller\<lparr>handle := 4\<rparr>,
      agent_mtp = zero_mtp_conn, group_id = 3, has_controller = False,
      gsdm_msg_id = Some ''BROKER-3-100'', registered_paths = [''Device.Foo.Bar.''],
      subs_map = [], req_map = [], msg_map = []\<rparr>"

definition first_state :: broker_state where
  "first_state = \<lparr>usp_services = [first_service, unused_slot], count = 2\<rparr>"

definition overlap_state :: broker_state where
  "overlap_state = \<lparr>usp_services = [first_service, second_service], count = 3\<rparr>"

definition next_group_env :: env where
  "next_group_env = example_env\<lparr>find_unused_group_id := 3\<rparr>"








text \<open>
  "A path which fails validation or conflicts", in the claim's words: the path fails the
  textual validation, or a Service in the table owns it, or it exists in the schema.
  \<open>is_service_setup\<close>: the calls made when a Service is added to the table.
\<close>

definition owned_live :: "usp_service_t list \<Rightarrow> string \<Rightarrow> bool" where
  "owned_live svcs p = (\<exists>s\<in>set svcs. us_instance s \<noteq> INVALID \<and> p \<in> set (registered_paths s))"

definition path_conflicts :: "env \<Rightarrow> usp_service_t list \<Rightarrow> string \<Rightarrow> bool" where
  "path_conflicts e svcs p =
     (ValidateUspServicePath p \<noteq> USP_ERR_OK \<or> owned_live svcs p \<or> exists_in_schema e p)"

definition is_service_setup :: "event \<Rightarrow> bool" where
  "is_service_setup ev =
     (case ev of USP_REGISTER_GroupVendorHooks_Dummy g \<Rightarrow> True
               | USP_DM_InformInstance p \<Rightarrow> True
               | _ \<Rightarrow> False)"

text \<open>A Register message with the given paths and flag.\<close>

definition example_register :: "string list \<Rightarrow> bool \<Rightarrow> usp_msg" where
  "example_register paths ap =
     \<lparr>header = Some \<lparr>msg_id = Some ''r1'', msg_type = MSG_TYPE_REGISTER\<rparr>,
      body = Some (MSG_BODY_REQUEST (Some (REQ_TYPE_REGISTER (Some
               \<lparr>allow_partial = ap, reg_paths = paths\<rparr>))))\<rparr>"

subsection \<open>The calls made for an accepted Register\<close>

text \<open>
  A registered path result reports success when its \<^verbatim>\<open>oper_status\<close> is the success case.
  \<^verbatim>\<open>register_events_spec\<close> is the order of calls read off the \<^verbatim>\<open>exit:\<close> label of
  \<^verbatim>\<open>USP_BROKER_HandleRegister\<close> followed by \<^verbatim>\<open>QueueGetSupportedDMToUspService\<close>: the
  response is queued, then the GetSupportedDM request, then the schema nodes are added.
  It is the statement against which the handler is compared.
\<close>

definition is_success :: "registered_path_result \<Rightarrow> bool" where
  "is_success r = (oper_status r = OPER_STATUS_OPER_SUCCESS (requested_path r))"

definition register_events_spec :: "env \<Rightarrow> string \<Rightarrow> mtp_conn_t \<Rightarrow> string option \<Rightarrow> registered_path_result list \<Rightarrow> string \<Rightarrow> usp_service_t \<Rightarrow> event list" where
  "register_events_spec e eid mtpc mid rs gid us =
     [MSG_HANDLER_QueueMessage eid (CreateRegisterResp mid rs) mtpc,
      MSG_HANDLER_QueueMessage (endpoint_id us)
        (CreateBroker_GetSupportedDMReq gid (registered_paths us)) (controller_mtp us)] @
     concat (map (add_schema_node e (group_id us)) (registered_paths us))"

text \<open>The state and the calls after \<^verbatim>\<open>S2\<close> registers \<^verbatim>\<open>Device.Bar.\<close> in \<^verbatim>\<open>register_state\<close>.\<close>

definition registered_S2 :: usp_service_t where
  "registered_S2 =
     service_S2\<lparr>registered_paths := [''Device.Bar.''], gsdm_msg_id := Some ''BROKER-2-100''\<rparr>"

definition registered_state :: broker_state where
  "registered_state = \<lparr>usp_services = [service_S1, registered_S2], count = 2\<rparr>"

definition registered_events :: "event list" where
  "registered_events =
     [MSG_HANDLER_QueueMessage ''S2''
        (CreateRegisterResp (Some ''r1'')
           [\<lparr>requested_path = ''Device.Bar.'',
             oper_status = OPER_STATUS_OPER_SUCCESS ''Device.Bar.''\<rparr>])
        conn_controller,
      MSG_HANDLER_QueueMessage ''S2''
        (CreateBroker_GetSupportedDMReq ''BROKER-2-100'' [''Device.Bar.''])
        (conn_controller\<lparr>handle := 4\<rparr>),
      DM_PRIV_AddSchemaPath ''Device.Bar.'' kDMNodeType_Object_SingleInstance,
      Node_SetGroup ''Device.Bar.'' 2 False]"

subsection \<open>Asynchronous commands\<close>

text \<open>
  Modelled from the spec: the type \<^verbatim>\<open>dm_req_t\<close> of usp\_api.h, which is not under
  src/. Of the request handed to a vendor hook, the path of the command and the group id
  of its owner are the fields the Broker reads.
\<close>

record dm_req_t =
  dm_path :: string
  dm_group_id :: int

text \<open>
  \<^verbatim>\<open>CreateBroker_OperateReq\<close>: an Operate request for the command, with a fresh
  message id and \<^verbatim>\<open>send_resp\<close> set.
\<close>

definition CreateBroker_OperateReq :: "env \<Rightarrow> broker_state \<Rightarrow> string \<Rightarrow> string \<Rightarrow> (string \<times> string) list \<Rightarrow> usp_msg \<times> broker_state" where
  "CreateBroker_OperateReq e st path key args =
     (let (mid, st1) = CalcBrokerMessageId e st (MAX_MSG_ID_LEN e) in
      (MSG_HANDLER_CreateRequestMsg mid MSG_TYPE_OPERATE
         (REQ_TYPE_OPERATE
            \<lparr>command = path, op_command_key = key, op_send_resp = True, input_args = args\<rparr>),
       st1))"

text \<open>
  \<^verbatim>\<open>ProcessOperateResponse\<close>. The result is the error code, the output arguments
  and \<^verbatim>\<open>is_complete\<close>. \<^verbatim>\<open>MSG_UTILS_ValidateUspResponse\<close> is not under src/; its
  answer is a parameter. \<open>operate_resp_of\<close> is the read of
  \<^verbatim>\<open>resp->body->response->operate_resp\<close>: \<open>Some None\<close> is a NULL pointer there, and
  \<open>None\<close> a message on which the read is not defined (no body, or no Operate response
  in it).
\<close>

definition operate_resp_of :: "usp_msg \<Rightarrow> operation_result list option option" where
  "operate_resp_of resp =
     (case body resp of
        Some (MSG_BODY_RESPONSE (Some (RESP_TYPE_OPERATE_RESP oper))) \<Rightarrow> Some oper
      | _ \<Rightarrow> None)"

definition ProcessOperateResponse :: "env \<Rightarrow> usp_msg \<Rightarrow> string \<Rightarrow> bool \<Rightarrow> (usp_err \<times> (string \<times> string) list \<times> bool) option" where
  "ProcessOperateResponse e resp path is_sync =
     (let err = validate_usp_response e resp in
      if err \<noteq> USP_ERR_OK then Some (err, [], False)
      else
        case operate_resp_of resp of
          None \<Rightarrow> None
        | Some None \<Rightarrow> Some (USP_ERR_INTERNAL_ERROR, [], False)
        | Some (Some results) \<Rightarrow>
            if length results \<noteq> 1 then Some (USP_ERR_INTERNAL_ERROR, [], False)
            else
              let res = results ! 0 in
              if executed_command res \<noteq> path then Some (USP_ERR_INTERNAL_ERROR, [], False)
              else
                case operation_resp res of
                  OPERATION_RESP_REQ_OBJ_PATH p \<Rightarrow>
                    if is_sync then Some (USP_ERR_INTERNAL_ERROR, [], False)
                    else Some (USP_ERR_OK, [], False)
                | OPERATION_RESP_REQ_OUTPUT_ARGS args \<Rightarrow> Some (USP_ERR_OK, args, True)
                | OPERATION_RESP_CMD_FAILURE code \<Rightarrow> Some (code, [], False)
                | OPERATION_RESP_NOT_SET \<Rightarrow> Some (err, [], False))"

text \<open>
  \<^verbatim>\<open>SendOperateAndProcessResponse\<close>. \<open>None\<close> is the failed \<^verbatim>\<open>USP_ASSERT\<close> (no
  Service owns the group) or an undefined read of the response. On the returns that
  precede \<^verbatim>\<open>ProcessOperateResponse\<close> the output arguments and \<^verbatim>\<open>is_complete\<close> are
  the caller's initial values (an empty vector, false). The call that sends the request
  and waits for the response is one step, made in the state \<open>st1\<close> that the creation
  of the request leaves: the response is what the collaborator answers in that state,
  and the tables are as the call found them when it returns.
\<close>

definition SendOperateAndProcessResponse :: "env \<Rightarrow> broker_state \<Rightarrow> int \<Rightarrow> string \<Rightarrow> bool \<Rightarrow> string \<Rightarrow> (string \<times> string) list \<Rightarrow> (usp_err \<times> (string \<times> string) list \<times> bool \<times> broker_state \<times> event list) option" where
  "SendOperateAndProcessResponse e st gid path is_sync key args =
     (case FindUspServiceByGroupId (usp_services st) gid of
        None \<Rightarrow> None
      | Some i \<Rightarrow>
          let us = usp_services st ! i in
          if protocol (controller_mtp us) = kMtpProtocol_None
          then Some (USP_ERR_INTERNAL_ERROR, [], False, st, [])
          else
            let (req, st1) = CreateBroker_OperateReq e st path key args;
                sent = DM_EXEC_SendRequestAndWaitForResponse (endpoint_id us) req
                         (controller_mtp us) MSG_TYPE_OPERATE_RESP
            in case send_request_and_wait e st1 (endpoint_id us) req (controller_mtp us) of
                 None \<Rightarrow> Some (USP_ERR_INTERNAL_ERROR, [], False, st1, [sent])
               | Some resp \<Rightarrow>
                   (case ProcessOperateResponse e resp path is_sync of
                      None \<Rightarrow> None
                    | Some (err, output_args, is_complete) \<Rightarrow>
                        Some (err, output_args, is_complete, st1, [sent])))"

text \<open>
  \<^verbatim>\<open>Broker_AsyncOperate\<close>. \<open>command_key_path\<close> is the path of the command key of the
  row of the Request table; \<open>remove_request\<close> is \<^verbatim>\<open>ReqMap_Remove\<close> on the req\_map of
  the Service, the pointer \<^verbatim>\<open>rmap\<close> being the position of the entry.
\<close>

definition command_key_path :: "env \<Rightarrow> int \<Rightarrow> string" where
  "command_key_path e inst =
     USP_SNPRINTF (MAX_DM_PATH e) (''Device.LocalAgent.Request.'' @ printf_d inst @ ''.CommandKey'')"

definition remove_request :: "broker_state \<Rightarrow> nat \<Rightarrow> nat \<Rightarrow> broker_state" where
  "remove_request st i rmap =
     set_service st i ((usp_services st ! i)\<lparr>req_map := ReqMap_Remove (req_map (usp_services st ! i)) rmap\<rparr>)"

definition Broker_AsyncOperate :: "env \<Rightarrow> broker_state \<Rightarrow> dm_req_t \<Rightarrow> (string \<times> string) list \<Rightarrow> int \<Rightarrow> (usp_err \<times> broker_state \<times> event list) option" where
  "Broker_AsyncOperate e st req args inst =
     (case FindUspServiceByGroupId (usp_services st) (dm_group_id req) of
        None \<Rightarrow> None
      | Some i \<Rightarrow>
          let us = usp_services st ! i in
          case SubsMap_FindByPath e (subs_map us) (dm_path req) of
            None \<Rightarrow> Some (USP_ERR_REQUEST_DENIED, st, [])
          | Some smap \<Rightarrow>
              let (err, key) = get_parameter_value e (command_key_path e inst) in
              if err \<noteq> USP_ERR_OK then Some (err, st, [])
              else
                case ReqMap_Find (req_map us) (dm_path req) key of
                  Some found \<Rightarrow> Some (USP_ERR_REQUEST_DENIED, st, [])
                | None \<Rightarrow>
                    let (rm, rmap) = ReqMap_Add (req_map us) inst (dm_path req) key;
                        st1 = set_service st i (us\<lparr>req_map := rm\<rparr>)
                    in case SendOperateAndProcessResponse e st1 (dm_group_id req) (dm_path req)
                              False key args of
                         None \<Rightarrow> None
                       | Some (err, output_args, is_complete, st2, evs) \<Rightarrow>
                           if err \<noteq> USP_ERR_OK then Some (err, remove_request st2 i rmap, evs)
                           else if is_complete
                           then Some (USP_ERR_OK, remove_request st2 i rmap,
                                      evs @ [USP_SIGNAL_OperationStatus inst ''Active'',
                                             USP_SIGNAL_OperationComplete inst USP_ERR_OK output_args])
                           else Some (USP_ERR_OK, st2,
                                      evs @ [USP_SIGNAL_OperationStatus inst ''Active'']))"

text \<open>
  For comparison with the code: the state in which the request is in the req\_map of the
  Service (\<open>with_request\<close>), the state after one message id was used (\<open>counted\<close>), the
  Operate request the Broker builds in a state and the call that sends it to the Service
  (\<open>operate_request\<close>, \<open>operate_sent\<close>), what the Service answers to it when it is
  sent from a given state (\<open>operate_reply\<close>: the call is made once the message id is
  used), and a response that validates and carries exactly one result, for the command
  (\<open>reply_for\<close>).
\<close>

definition with_request :: "broker_state \<Rightarrow> nat \<Rightarrow> int \<Rightarrow> string \<Rightarrow> string \<Rightarrow> broker_state" where
  "with_request st i inst path key =
     st\<lparr>usp_services := (usp_services st)
          [i := (usp_services st ! i)
             \<lparr>req_map := req_map (usp_services st ! i) @
                [\<lparr>request_instance = inst, rmap_path = path, command_key = key\<rparr>]\<rparr>]\<rparr>"

definition counted :: "broker_state \<Rightarrow> broker_state" where
  "counted st = st\<lparr>count := count st + 1\<rparr>"

definition operate_request :: "env \<Rightarrow> broker_state \<Rightarrow> string \<Rightarrow> string \<Rightarrow> (string \<times> string) list \<Rightarrow> usp_msg" where
  "operate_request e st path key args = fst (CreateBroker_OperateReq e st path key args)"

definition operate_sent :: "env \<Rightarrow> broker_state \<Rightarrow> usp_service_t \<Rightarrow> string \<Rightarrow> string \<Rightarrow> (string \<times> string) list \<Rightarrow> event" where
  "operate_sent e st us path key args =
     DM_EXEC_SendRequestAndWaitForResponse (endpoint_id us) (operate_request e st path key args)
       (controller_mtp us) MSG_TYPE_OPERATE_RESP"

definition operate_reply :: "env \<Rightarrow> broker_state \<Rightarrow> usp_service_t \<Rightarrow> string \<Rightarrow> string \<Rightarrow> (string \<times> string) list \<Rightarrow> usp_msg option" where
  "operate_reply e st us path key args =
     send_request_and_wait e (counted st) (endpoint_id us) (operate_request e st path key args)
       (controller_mtp us)"

definition reply_for :: "env \<Rightarrow> usp_msg \<Rightarrow> string \<Rightarrow> operation_resp \<Rightarrow> bool" where
  "reply_for e resp path r =
     (validate_usp_response e resp = USP_ERR_OK \<and>
      operate_resp_of resp = Some (Some [\<lparr>executed_command = path, operation_resp = r\<rparr>]))"

text \<open>
  An asynchronous \<^verbatim>\<open>Device.Foo.Reboot()\<close> on the Service \<open>S1\<close> of \<open>example_state\<close>, for
  the row 8 of the Request table. With \<open>operate_env\<close> the Service answers with the path
  of its own request if the req\_map of \<open>S1\<close> holds the command with the key \<open>K2\<close> when
  the request is sent, and not at all otherwise; with \<open>same_key_env\<close> the command key
  of the row is \<open>K\<close>, which the req\_map of \<open>S1\<close> already holds for that command.
\<close>

definition reboot_req :: dm_req_t where
  "reboot_req = \<lparr>dm_path = ''Device.Foo.Reboot()'', dm_group_id = 1\<rparr>"

definition operate_response :: usp_msg where
  "operate_response =
     MSG_HANDLER_CreateResponseMsg (Some ''BROKER-2-100'') MSG_TYPE_OPERATE_RESP
       (RESP_TYPE_OPERATE_RESP
          (Some [\<lparr>executed_command = ''Device.Foo.Reboot()'',
                  operation_resp = OPERATION_RESP_REQ_OBJ_PATH ''Device.LocalAgent.Request.3.''\<rparr>]))"

definition operate_env :: env where
  "operate_env =
     example_env\<lparr>send_request_and_wait :=
       (\<lambda>st eid m c.
          if ReqMap_Find (req_map (usp_services st ! 0)) ''Device.Foo.Reboot()'' ''K2'' = None
          then None else Some operate_response)\<rparr>"

definition same_key_env :: env where
  "same_key_env = example_env\<lparr>get_parameter_value := (\<lambda>p. (USP_ERR_OK, ''K''))\<rparr>"

definition reboot_request :: usp_msg where
  "reboot_request =
     MSG_HANDLER_CreateRequestMsg ''BROKER-2-100'' MSG_TYPE_OPERATE
       (REQ_TYPE_OPERATE
          \<lparr>command = ''Device.Foo.Reboot()'', op_command_key = ''K2'', op_send_resp = True,
           input_args = []\<rparr>)"

definition operating_state :: broker_state where
  "operating_state =
     \<lparr>usp_services =
        [service_S1\<lparr>req_map :=
           [\<lparr>request_instance = 7, rmap_path = ''Device.Foo.Reboot()'', command_key = ''K''\<rparr>,
            \<lparr>request_instance = 8, rmap_path = ''Device.Foo.Reboot()'', command_key = ''K2''\<rparr>]\<rparr>,
         unused_slot],
      count = 2\<rparr>"


section \<open>Verified properties\<close>

subsection \<open>Searching\<close>

lemma find_first_Some:
  "find_first P xs = Some k \<Longrightarrow> k < length xs \<and> P (xs ! k) \<and> (\<forall>j<k. \<not> P (xs ! j))"
proof (induction xs arbitrary: k)
  case Nil
  then show ?case by simp
next
  case (Cons x xs)
  show ?case
  proof (cases "P x")
    case True
    with Cons.prems show ?thesis by simp
  next
    case False
    with Cons.prems obtain k' where k': "find_first P xs = Some k'" "k = Suc k'"
      by auto
    from Cons.IH [OF k'(1)] have "k' < length xs \<and> P (xs ! k') \<and> (\<forall>j<k'. \<not> P (xs ! j))" .
    with False k'(2) show ?thesis by (auto simp: less_Suc_eq_0_disj)
  qed
qed

lemma find_first_None_iff: "find_first P xs = None \<longleftrightarrow> (\<forall>x\<in>set xs. \<not> P x)"
  by (induction xs) auto

lemma find_first_exists: "x \<in> set xs \<Longrightarrow> P x \<Longrightarrow> \<exists>k. find_first P xs = Some k"
  using find_first_None_iff [of P xs] by (cases "find_first P xs") auto


lemma find_first_update_same:
  "i < length xs \<Longrightarrow> P y = P (xs ! i) \<Longrightarrow> find_first P (xs[i := y]) = find_first P xs"
proof (induction xs arbitrary: i)
  case Nil
  then show ?case by simp
next
  case (Cons x xs)
  then show ?case by (cases i) auto
qed



lemmas example_defs = example_state_def service_S1_def unused_slot_def zero_service_def
  zero_mtp_conn_def conn_controller_def conn_agent_def conn_c1_def INVALID_def

lemma find_S1: "FindUspServiceByEndpoint (usp_services example_state) ''S1'' = Some 0"
  by (simp add: FindUspServiceByEndpoint_def example_defs)

subsection \<open>The textual shape of a registered path\<close>

lemma has_bad_char_iff: "has_bad_char p \<longleftrightarrow> (\<exists>c\<in>set p. \<not> IS_ALPHA_NUMERIC c \<and> c \<noteq> CHR ''.'')"
  by (induction p) auto

lemma has_instance_number_dot_digit:
  "has_instance_number (strchr p (CHR ''.'')) = dot_digit p"
proof (induction p rule: dot_digit.induct)
  case 1
  then show ?case by simp
next
  case (2 c)
  then show ?case by simp
next
  case (3 c d cs)
  then show ?case by (simp add: Let_def)
qed

lemma dot_digit_iff:
  "dot_digit p \<longleftrightarrow> (\<exists>i. Suc i < length p \<and> p ! i = CHR ''.'' \<and> IS_NUMERIC (p ! Suc i))"
proof (induction p rule: dot_digit.induct)
  case 1
  then show ?case by simp
next
  case (2 c)
  then show ?case by simp
next
  case (3 c d cs)
  show ?case (is "?L = ?R")
  proof
    assume ?L
    then consider "c = CHR ''.'' \<and> IS_NUMERIC d" | "dot_digit (d # cs)" by auto
    then show ?R
    proof cases
      case 1
      then have "Suc 0 < length (c # d # cs) \<and> (c # d # cs) ! 0 = CHR ''.'' \<and> IS_NUMERIC ((c # d # cs) ! Suc 0)"
        by simp
      then show ?thesis by blast
    next
      case 2
      with 3 obtain i where "Suc i < length (d # cs)" "(d # cs) ! i = CHR ''.''" "IS_NUMERIC ((d # cs) ! Suc i)"
        by blast
      then have "Suc (Suc i) < length (c # d # cs) \<and> (c # d # cs) ! Suc i = CHR ''.'' \<and> IS_NUMERIC ((c # d # cs) ! Suc (Suc i))"
        by simp
      then show ?thesis by blast
    qed
  next
    assume ?R
    then obtain i where i: "Suc i < length (c # d # cs)" "(c # d # cs) ! i = CHR ''.''" "IS_NUMERIC ((c # d # cs) ! Suc i)"
      by blast
    show ?L
    proof (cases i)
      case 0
      with i show ?thesis by simp
    next
      case (Suc j)
      with i have "Suc j < length (d # cs) \<and> (d # cs) ! j = CHR ''.'' \<and> IS_NUMERIC ((d # cs) ! Suc j)"
        by simp
      then have "dot_digit (d # cs)" using 3 by blast
      then show ?thesis by simp
    qed
  qed
qed

lemma starts_iff: "\<not> strncmp_differs p DM_ROOT (length DM_ROOT) \<longleftrightarrow> (\<exists>r. p = ''Device.'' @ r)"
proof
  assume "\<not> strncmp_differs p DM_ROOT (length DM_ROOT)"
  then have "take (length ''Device.'') p = ''Device.''"
    by (simp add: strncmp_differs_def DM_ROOT_def)
  then have "p = ''Device.'' @ drop (length ''Device.'') p" by (metis append_take_drop_id)
  then show "\<exists>r. p = ''Device.'' @ r" ..
next
  assume "\<exists>r. p = ''Device.'' @ r"
  then show "\<not> strncmp_differs p DM_ROOT (length DM_ROOT)"
    by (auto simp: strncmp_differs_def DM_ROOT_def)
qed

text \<open>
  C3. \<^verbatim>\<open>ValidateUspServicePath\<close> returns \<open>USP_ERR_OK\<close> exactly for the paths that
  begin with \<open>Device.\<close>, end with \<open>.\<close>, contain only alphanumeric characters and \<open>.\<close>,
  and in which no \<open>.\<close> is immediately followed by a digit; for every other path it
  returns \<open>USP_ERR_REGISTER_FAILURE\<close>. (A path without a trailing dot, with \<open>{i}\<close> or
  not starting with \<open>Device.\<close> fails one of the four conditions.)
\<close>

theorem ValidateUspServicePath_ok_iff:
  "(ValidateUspServicePath p = USP_ERR_OK \<longleftrightarrow>
      (\<exists>r. p = ''Device.'' @ r) \<and>
      p \<noteq> [] \<and> last p = CHR ''.'' \<and>
      (\<forall>c\<in>set p. IS_ALPHA_NUMERIC c \<or> c = CHR ''.'') \<and>
      \<not> (\<exists>i. Suc i < length p \<and> p ! i = CHR ''.'' \<and> IS_NUMERIC (p ! Suc i))) \<and>
   (ValidateUspServicePath p = USP_ERR_OK \<or> ValidateUspServicePath p = USP_ERR_REGISTER_FAILURE)"
proof -
  define S where "S \<longleftrightarrow> (\<exists>r. p = ''Device.'' @ r)"
  define B where "B \<longleftrightarrow> (\<forall>c\<in>set p. IS_ALPHA_NUMERIC c \<or> c = CHR ''.'')"
  define I where "I \<longleftrightarrow> (\<exists>i. Suc i < length p \<and> p ! i = CHR ''.'' \<and> IS_NUMERIC (p ! Suc i))"
  have s: "strncmp_differs p DM_ROOT (length DM_ROOT) = (\<not> S)"
    using starts_iff [of p] unfolding S_def by blast
  have n: "S \<Longrightarrow> p \<noteq> []" by (auto simp: S_def)
  have l: "S \<Longrightarrow> p ! (length p - 1) = last p"
    using n by (simp add: last_conv_nth)
  have b: "has_bad_char p = (\<not> B)"
    by (auto simp: has_bad_char_iff B_def)
  have i: "has_instance_number (strchr p (CHR ''.'')) = I"
    by (simp only: has_instance_number_dot_digit dot_digit_iff I_def)
  have "(ValidateUspServicePath p = USP_ERR_OK \<longleftrightarrow> S \<and> p \<noteq> [] \<and> last p = CHR ''.'' \<and> B \<and> \<not> I) \<and>
        (ValidateUspServicePath p = USP_ERR_OK \<or> ValidateUspServicePath p = USP_ERR_REGISTER_FAILURE)"
    unfolding ValidateUspServicePath_def s b i using n l by (cases S) auto
  then show ?thesis unfolding S_def B_def I_def .
qed

theorem ValidateUspServicePath_ok_iff_witness:
  "ValidateUspServicePath ''Device.Foo.'' = USP_ERR_OK \<and>
   ValidateUspServicePath ''Device.Foo'' = USP_ERR_REGISTER_FAILURE \<and>
   ValidateUspServicePath ''Device.Foo.{i}.'' = USP_ERR_REGISTER_FAILURE \<and>
   ValidateUspServicePath ''Dev.Foo.'' = USP_ERR_REGISTER_FAILURE \<and>
   ValidateUspServicePath ''Device.Foo.1.'' = USP_ERR_REGISTER_FAILURE"
proof -
  have a: "\<exists>r. ''Device.Foo.'' = ''Device.'' @ r" by simp
  have b: "\<forall>c\<in>set ''Device.Foo.''. IS_ALPHA_NUMERIC c \<or> c = CHR ''.''"
    by (simp add: IS_ALPHA_NUMERIC_def IS_ALPHA_def IS_NUMERIC_def)
  have c: "\<not> (\<exists>i. Suc i < length ''Device.Foo.'' \<and> ''Device.Foo.'' ! i = CHR ''.'' \<and>
                 IS_NUMERIC (''Device.Foo.'' ! Suc i))"
    unfolding dot_digit_iff [symmetric] by (simp add: IS_NUMERIC_def)
  have ok: "ValidateUspServicePath ''Device.Foo.'' = USP_ERR_OK"
    using ValidateUspServicePath_ok_iff [of "''Device.Foo.''"] a b c by simp
  have n1: "ValidateUspServicePath ''Device.Foo'' = USP_ERR_REGISTER_FAILURE"
    using ValidateUspServicePath_ok_iff [of "''Device.Foo''"] by auto
  have n2: "ValidateUspServicePath ''Device.Foo.{i}.'' = USP_ERR_REGISTER_FAILURE"
    using ValidateUspServicePath_ok_iff [of "''Device.Foo.{i}.''"]
    by (auto simp: IS_ALPHA_NUMERIC_def IS_ALPHA_def IS_NUMERIC_def)
  have n3: "ValidateUspServicePath ''Dev.Foo.'' = USP_ERR_REGISTER_FAILURE"
    using ValidateUspServicePath_ok_iff [of "''Dev.Foo.''"] by auto
  have d: "\<exists>i. Suc i < length ''Device.Foo.1.'' \<and> ''Device.Foo.1.'' ! i = CHR ''.'' \<and>
               IS_NUMERIC (''Device.Foo.1.'' ! Suc i)"
    unfolding dot_digit_iff [symmetric] by (simp add: IS_NUMERIC_def)
  have n4: "ValidateUspServicePath ''Device.Foo.1.'' = USP_ERR_REGISTER_FAILURE"
    using ValidateUspServicePath_ok_iff [of "''Device.Foo.1.''"] d by blast
  show ?thesis using ok n1 n2 n3 n4 by simp
qed

subsection \<open>Looking a Service up by its endpoint\<close>

lemma GetUspServiceInstance_general:
  assumes "FindUspServiceByEndpoint svcs eid = Some i"
  shows "USP_BROKER_GetUspServiceInstance occ svcs eid flags =
           (if (flags AND occ) AND 1 \<noteq> 0 \<and> \<not> has_controller (svcs ! i)
            then INVALID else us_instance (svcs ! i))"
  using assms by (simp add: USP_BROKER_GetUspServiceInstance_def)

text \<open>
  C8. For a connected Service (one that \<^verbatim>\<open>FindUspServiceByEndpoint\<close> finds) and every
  value of \<open>flags\<close>, \<^verbatim>\<open>USP_BROKER_GetUspServiceInstance\<close> returns \<open>INVALID\<close> when the
  caller passed \<^verbatim>\<open>ONLY_CONTROLLER_CONNECTIONS\<close> and \<^verbatim>\<open>has_controller\<close> is false, and
  the instance number of the Service (which is not \<open>INVALID\<close>) otherwise. The flag is
  the lowest bit, as usp\_broker.h defines it; with that value the two bitwise ANDs of
  the source compute the logical conjunction.
\<close>

theorem GetUspServiceInstance_controller_only:
  assumes "FindUspServiceByEndpoint svcs eid = Some i"
    and "only_controller_connections = 1"
  shows "USP_BROKER_GetUspServiceInstance only_controller_connections svcs eid flags =
           (if flags AND only_controller_connections \<noteq> 0 \<and> \<not> has_controller (svcs ! i)
            then INVALID else us_instance (svcs ! i)) \<and>
         us_instance (svcs ! i) \<noteq> INVALID"
proof -
  from find_first_Some [OF assms(1) [unfolded FindUspServiceByEndpoint_def]]
  have live: "us_instance (svcs ! i) \<noteq> INVALID" by simp
  show ?thesis
    using assms live by (simp add: USP_BROKER_GetUspServiceInstance_def)
qed

theorem GetUspServiceInstance_controller_only_witness:
  "USP_BROKER_GetUspServiceInstance 1 (usp_services example_state) ''S1'' 1 = INVALID \<and>
   USP_BROKER_GetUspServiceInstance 1 (usp_services example_state) ''S1'' 0 = 1"
  using GetUspServiceInstance_controller_only [OF find_S1, of 1 1]
        GetUspServiceInstance_controller_only [OF find_S1, of 1 0]
  by (simp add: example_defs)

subsection \<open>A connection for an endpoint that is already known\<close>

lemma AddUspService_known_endpoint_result:
  assumes f: "FindUspServiceByEndpoint (usp_services st) eid = Some i"
  shows "USP_BROKER_AddUspService e st eid mtpc =
           (if protocol mtpc = kMtpProtocol_UDS \<and> uds_path_type mtpc = kUdsPathType_Invalid
            then None
            else Some (USP_ERR_OK,
                 st\<lparr>usp_services := (usp_services st)[i := update_mtp_spec (usp_services st ! i) mtpc]\<rparr>,
                 map DM_EXEC_FreeMTPConnection (released_spec (usp_services st ! i) mtpc)))"
proof (cases "protocol mtpc = kMtpProtocol_UDS")
  case True
  then show ?thesis
    using f
    by (cases "uds_path_type mtpc")
       (simp_all add: USP_BROKER_AddUspService_def UpdateUspServiceMRT_def set_service_def
          mark_has_controller_def update_mtp_spec_def released_spec_def
          release_if_connected_def DM_EXEC_CopyMTPConnection_def)
next
  case False
  then show ?thesis
    using f
    by (simp add: USP_BROKER_AddUspService_def UpdateUspServiceMRT_def set_service_def
          mark_has_controller_def update_mtp_spec_def released_spec_def
          release_if_connected_def DM_EXEC_CopyMTPConnection_def)
qed

lemma update_mtp_spec_frame:
  "us_instance (update_mtp_spec us mtpc) = us_instance us \<and>
   endpoint_id (update_mtp_spec us mtpc) = endpoint_id us \<and>
   group_id (update_mtp_spec us mtpc) = group_id us \<and>
   gsdm_msg_id (update_mtp_spec us mtpc) = gsdm_msg_id us \<and>
   registered_paths (update_mtp_spec us mtpc) = registered_paths us \<and>
   subs_map (update_mtp_spec us mtpc) = subs_map us \<and>
   req_map (update_mtp_spec us mtpc) = req_map us \<and>
   msg_map (update_mtp_spec us mtpc) = msg_map us"
  by (simp add: update_mtp_spec_def)

lemma update_mtp_spec_idem:
  "update_mtp_spec (update_mtp_spec us mtpc) mtpc = update_mtp_spec us mtpc"
  by (simp add: update_mtp_spec_def)

text \<open>
  C9. \<^verbatim>\<open>USP_BROKER_AddUspService\<close> for an endpoint that already has a live entry
  (and a connection whose UDS path type is valid; otherwise the process is terminated,
  see \<open>AddUspService_known_endpoint_result\<close>) returns \<open>USP_ERR_OK\<close>; no slot, instance
  number or group id is allocated (the only calls are releases of connection handles,
  every other slot and the message counter are unchanged); the instance, endpoint, group
  id, \<open>gsdm_msg_id\<close>, \<open>registered_paths\<close>, \<open>subs_map\<close>, \<open>req_map\<close> and \<open>msg_map\<close> of the
  entry are unchanged; the role-appropriate connection handle is replaced, the previous
  one being released, and \<open>has_controller\<close> is set for a connection on the Broker's
  agent socket. Doing it again with the same connection leaves the table as it is.
\<close>

theorem AddUspService_known_endpoint:
  assumes f: "FindUspServiceByEndpoint (usp_services st) eid = Some i"
    and ok: "\<not> (protocol mtpc = kMtpProtocol_UDS \<and> uds_path_type mtpc = kUdsPathType_Invalid)"
  shows "\<exists>st' evs.
         USP_BROKER_AddUspService e st eid mtpc = Some (USP_ERR_OK, st', evs) \<and>
         count st' = count st \<and>
         usp_services st' = (usp_services st)[i := update_mtp_spec (usp_services st ! i) mtpc] \<and>
         evs = map DM_EXEC_FreeMTPConnection (released_spec (usp_services st ! i) mtpc) \<and>
         us_instance (usp_services st' ! i) = us_instance (usp_services st ! i) \<and>
         endpoint_id (usp_services st' ! i) = endpoint_id (usp_services st ! i) \<and>
         group_id (usp_services st' ! i) = group_id (usp_services st ! i) \<and>
         gsdm_msg_id (usp_services st' ! i) = gsdm_msg_id (usp_services st ! i) \<and>
         registered_paths (usp_services st' ! i) = registered_paths (usp_services st ! i) \<and>
         subs_map (usp_services st' ! i) = subs_map (usp_services st ! i) \<and>
         req_map (usp_services st' ! i) = req_map (usp_services st ! i) \<and>
         msg_map (usp_services st' ! i) = msg_map (usp_services st ! i) \<and>
         FindUspServiceByEndpoint (usp_services st') eid = Some i \<and>
         (\<exists>evs2. USP_BROKER_AddUspService e st' eid mtpc = Some (USP_ERR_OK, st', evs2))"
proof -
  define st' where
    "st' = st\<lparr>usp_services := (usp_services st)[i := update_mtp_spec (usp_services st ! i) mtpc]\<rparr>"
  from find_first_Some [OF f [unfolded FindUspServiceByEndpoint_def]]
  have il: "i < length (usp_services st)" by simp
  have res: "USP_BROKER_AddUspService e st eid mtpc =
      Some (USP_ERR_OK, st', map DM_EXEC_FreeMTPConnection (released_spec (usp_services st ! i) mtpc))"
    using ok AddUspService_known_endpoint_result [OF f, of e mtpc] by (simp add: st'_def)
  have nth: "usp_services st' ! i = update_mtp_spec (usp_services st ! i) mtpc"
    using il by (simp add: st'_def)
  have f': "FindUspServiceByEndpoint (usp_services st') eid = Some i"
    using f il update_mtp_spec_frame [of "usp_services st ! i" mtpc]
    by (simp add: st'_def find_first_update_same FindUspServiceByEndpoint_def)
  have again: "USP_BROKER_AddUspService e st' eid mtpc =
      Some (USP_ERR_OK, st', map DM_EXEC_FreeMTPConnection (released_spec (usp_services st' ! i) mtpc))"
    using AddUspService_known_endpoint_result [OF f', of e mtpc] ok nth
    by (simp add: update_mtp_spec_idem st'_def)
  have fr: "count st' = count st \<and>
         usp_services st' = (usp_services st)[i := update_mtp_spec (usp_services st ! i) mtpc]"
    by (simp add: st'_def)
  show ?thesis
    using res nth f' again fr update_mtp_spec_frame [of "usp_services st ! i" mtpc] by simp
qed

theorem AddUspService_known_endpoint_witness:
  "USP_BROKER_AddUspService example_env example_state ''S1'' (conn_controller\<lparr>handle := 5\<rparr>) =
     Some (USP_ERR_OK,
           example_state\<lparr>usp_services :=
             [service_S1\<lparr>controller_mtp := conn_controller\<lparr>handle := 5\<rparr>\<rparr>, unused_slot]\<rparr>,
           [DM_EXEC_FreeMTPConnection conn_controller]) \<and>
   USP_BROKER_AddUspService example_env example_state ''S1'' conn_agent =
     Some (USP_ERR_OK,
           example_state\<lparr>usp_services :=
             [service_S1\<lparr>agent_mtp := conn_agent, has_controller := True\<rparr>, unused_slot]\<rparr>,
           [])"
proof -
  have ok1: "\<not> (protocol (conn_controller\<lparr>handle := 5\<rparr>) = kMtpProtocol_UDS \<and>
                uds_path_type (conn_controller\<lparr>handle := 5\<rparr>) = kUdsPathType_Invalid)"
    by (simp add: conn_controller_def)
  have ok2: "\<not> (protocol conn_agent = kMtpProtocol_UDS \<and>
                uds_path_type conn_agent = kUdsPathType_Invalid)"
    by (simp add: conn_agent_def)
  have s: "usp_services example_state = [service_S1, unused_slot]"
    by (simp add: example_state_def)
  have u1: "update_mtp_spec service_S1 (conn_controller\<lparr>handle := 5\<rparr>) =
              service_S1\<lparr>controller_mtp := conn_controller\<lparr>handle := 5\<rparr>\<rparr>"
    by (simp add: update_mtp_spec_def conn_controller_def)
  have u2: "update_mtp_spec service_S1 conn_agent =
              service_S1\<lparr>agent_mtp := conn_agent, has_controller := True\<rparr>"
    by (simp add: update_mtp_spec_def conn_agent_def)
  have r1: "released_spec service_S1 (conn_controller\<lparr>handle := 5\<rparr>) = [conn_controller]"
    by (simp add: released_spec_def service_S1_def conn_controller_def)
  have r2: "released_spec service_S1 conn_agent = []"
    by (simp add: released_spec_def service_S1_def conn_agent_def zero_mtp_conn_def)
  from AddUspService_known_endpoint [OF find_S1 ok1, of example_env]
  obtain st1 evs1 where a:
    "USP_BROKER_AddUspService example_env example_state ''S1'' (conn_controller\<lparr>handle := 5\<rparr>) =
       Some (USP_ERR_OK, st1, evs1)"
    "count st1 = count example_state"
    "usp_services st1 = (usp_services example_state)
        [0 := update_mtp_spec (usp_services example_state ! 0) (conn_controller\<lparr>handle := 5\<rparr>)]"
    "evs1 = map DM_EXEC_FreeMTPConnection
        (released_spec (usp_services example_state ! 0) (conn_controller\<lparr>handle := 5\<rparr>))"
    by blast
  from AddUspService_known_endpoint [OF find_S1 ok2, of example_env]
  obtain st2 evs2 where b:
    "USP_BROKER_AddUspService example_env example_state ''S1'' conn_agent =
       Some (USP_ERR_OK, st2, evs2)"
    "count st2 = count example_state"
    "usp_services st2 = (usp_services example_state)
        [0 := update_mtp_spec (usp_services example_state ! 0) conn_agent]"
    "evs2 = map DM_EXEC_FreeMTPConnection (released_spec (usp_services example_state ! 0) conn_agent)"
    by blast
  have e1: "st1 = example_state\<lparr>usp_services :=
             [service_S1\<lparr>controller_mtp := conn_controller\<lparr>handle := 5\<rparr>\<rparr>, unused_slot]\<rparr>"
    using a(2,3) by (simp add: s u1)
  have e2: "st2 = example_state\<lparr>usp_services :=
             [service_S1\<lparr>agent_mtp := conn_agent, has_controller := True\<rparr>, unused_slot]\<rparr>"
    using b(2,3) by (simp add: s u2)
  show ?thesis
    using a(1,4) b(1,4) e1 e2 by (simp add: s r1 r2)
qed

subsection \<open>Passing a response back\<close>








subsection \<open>Routing a notification\<close>

lemma notification_exit_denied:
  "header usp = Some h \<Longrightarrow>
   notification_exit st [] USP_ERR_REQUEST_DENIED usp eid mtpc =
     Some (st, [MSG_HANDLER_QueueErrorMessage USP_ERR_REQUEST_DENIED eid mtpc (msg_id h)])"
  by (simp add: notification_exit_def)

lemma notification_exit_cases:
  "header usp = Some h \<Longrightarrow>
   notification_exit st evs err usp eid mtpc =
     Some (st, evs @ (if err \<noteq> USP_ERR_OK
                      then [MSG_HANDLER_QueueErrorMessage err eid mtpc (msg_id h)] else []))"
  by (simp add: notification_exit_def)

lemma DeleteMatchingOperateRequest_events:
  "DeleteMatchingOperateRequest e us a b c = (us1, evs1) \<Longrightarrow> \<forall>ev\<in>set evs1. \<not> is_route ev"
  by (auto simp: DeleteMatchingOperateRequest_def Let_def is_route_def split: option.splits)

lemma HandleNotification_rejected:
  assumes h: "header usp = Some h" and r: "\<not> notify_accepted_spec st usp eid"
  shows "USP_BROKER_HandleNotification e st usp eid mtpc =
           Some (st, [MSG_HANDLER_QueueErrorMessage USP_ERR_REQUEST_DENIED eid mtpc (msg_id h)])"
proof (cases "notify_of usp")
  case None
  then show ?thesis using h
    by (simp add: USP_BROKER_HandleNotification_def notification_exit_denied)
next
  case (Some n)
  show ?thesis
  proof (cases "send_resp n")
    case True
    then show ?thesis using h Some
      by (simp add: USP_BROKER_HandleNotification_def notification_exit_denied)
  next
    case False
    show ?thesis
    proof (cases "FindUspServiceByEndpoint (usp_services st) eid")
      case None
      then show ?thesis using h Some False
        by (simp add: USP_BROKER_HandleNotification_def notification_exit_denied)
    next
      case (Some i)
      have "\<forall>m\<in>set (subs_map (usp_services st ! i)). subscription_id m \<noteq> notify_subscription_id n"
        using r \<open>notify_of usp = Some n\<close> False Some
        by (auto simp: notify_accepted_spec_def)
      then have "SubsMap_FindByUspServiceSubsId (subs_map (usp_services st ! i))
                   (notify_subscription_id n) = None"
        by (simp add: SubsMap_FindByUspServiceSubsId_def find_first_None_iff)
      then show ?thesis using h \<open>notify_of usp = Some n\<close> False Some
        by (simp add: USP_BROKER_HandleNotification_def notification_exit_denied Let_def)
    qed
  qed
qed

lemma HandleNotification_accepted:
  assumes h: "header usp = Some h" and a: "notify_accepted_spec st usp eid"
  shows "\<exists>n i k st' rest.
           notify_of usp = Some n \<and>
           FindUspServiceByEndpoint (usp_services st) eid = Some i \<and>
           SubsMap_FindByUspServiceSubsId (subs_map (usp_services st ! i))
             (notify_subscription_id n) = Some k \<and>
           USP_BROKER_HandleNotification e st usp eid mtpc =
             Some (st', DEVICE_SUBSCRIPTION_RouteNotification usp
                          (broker_instance (subs_map (usp_services st ! i) ! k)) # rest) \<and>
           (\<forall>ev\<in>set rest. \<not> is_route ev)"
proof -
  from a obtain n i m where n: "notify_of usp = Some n" "\<not> send_resp n"
    and i: "FindUspServiceByEndpoint (usp_services st) eid = Some i"
    and m: "m \<in> set (subs_map (usp_services st ! i))" "subscription_id m = notify_subscription_id n"
    by (auto simp: notify_accepted_spec_def)
  from find_first_exists [of m "subs_map (usp_services st ! i)"
        "\<lambda>x. subscription_id x = notify_subscription_id n"] m
  obtain k where k: "SubsMap_FindByUspServiceSubsId (subs_map (usp_services st ! i))
             (notify_subscription_id n) = Some k"
    by (auto simp: SubsMap_FindByUspServiceSubsId_def)
  define b where "b = broker_instance (subs_map (usp_services st ! i) ! k)"
  define err where "err = route_notification_result e usp b"
  define tail where "tail = (if err \<noteq> USP_ERR_OK
                      then [MSG_HANDLER_QueueErrorMessage err eid mtpc (msg_id h)] else [])"
  have tail_nr: "\<forall>ev\<in>set tail. \<not> is_route ev" by (simp add: tail_def is_route_def)
  show ?thesis
  proof (cases "notification n")
    case (NOTIFICATION_OTHER x)
    have "USP_BROKER_HandleNotification e st usp eid mtpc =
            Some (st, DEVICE_SUBSCRIPTION_RouteNotification usp b # tail)"
      using n i k h NOTIFICATION_OTHER
      by (simp add: USP_BROKER_HandleNotification_def Let_def notification_exit_cases
            b_def err_def tail_def)
    then show ?thesis using n i k tail_nr unfolding b_def by blast
  next
    case (NOTIFICATION_OPER_COMPLETE op)
    obtain us1 evs1 where d: "DeleteMatchingOperateRequest e (usp_services st ! i) (obj_path op)
                                      (command_name op) (oc_command_key op) = (us1, evs1)"
      by (cases "DeleteMatchingOperateRequest e (usp_services st ! i) (obj_path op)
                                      (command_name op) (oc_command_key op)") auto
    have "USP_BROKER_HandleNotification e st usp eid mtpc =
            Some (set_service st i us1, DEVICE_SUBSCRIPTION_RouteNotification usp b # (evs1 @ tail))"
      using n i k h NOTIFICATION_OPER_COMPLETE d
      by (simp add: USP_BROKER_HandleNotification_def Let_def notification_exit_cases
            b_def err_def tail_def)
    moreover have "\<forall>ev\<in>set (evs1 @ tail). \<not> is_route ev"
      using DeleteMatchingOperateRequest_events [OF d] tail_nr by auto
    ultimately show ?thesis using n i k unfolding b_def by blast
  qed
qed

text \<open>
  C5. \<^verbatim>\<open>USP_BROKER_HandleNotification\<close> (for a message with a header) routes the
  notification if and only if the message is a Notify with \<open>send_resp\<close> false, the
  sending endpoint is a known Service and the \<open>subs_map\<close> of that Service has an entry
  with the subscription id of the notification; it is then routed once, keyed by the
  \<open>broker_instance\<close> of the entry found. In every other case (also \<open>send_resp\<close> true)
  nothing is routed, the state is unchanged and one USP ERROR with the code
  \<open>USP_ERR_REQUEST_DENIED\<close> is queued to the sender.
\<close>

theorem HandleNotification_routing:
  assumes h: "header usp = Some h"
  shows "\<exists>st' evs.
           USP_BROKER_HandleNotification e st usp eid mtpc = Some (st', evs) \<and>
           ((\<exists>ev\<in>set evs. is_route ev) \<longleftrightarrow> notify_accepted_spec st usp eid) \<and>
           (notify_accepted_spec st usp eid \<longrightarrow>
              (\<exists>n i k. notify_of usp = Some n \<and>
                 FindUspServiceByEndpoint (usp_services st) eid = Some i \<and>
                 SubsMap_FindByUspServiceSubsId (subs_map (usp_services st ! i))
                   (notify_subscription_id n) = Some k \<and>
                 filter is_route evs =
                   [DEVICE_SUBSCRIPTION_RouteNotification usp
                      (broker_instance (subs_map (usp_services st ! i) ! k))])) \<and>
           (\<not> notify_accepted_spec st usp eid \<longrightarrow>
              st' = st \<and>
              evs = [MSG_HANDLER_QueueErrorMessage USP_ERR_REQUEST_DENIED eid mtpc (msg_id h)])"
proof (cases "notify_accepted_spec st usp eid")
  case True
  from HandleNotification_accepted [OF h True, of e mtpc]
  obtain n i k st' rest where r:
    "notify_of usp = Some n"
    "FindUspServiceByEndpoint (usp_services st) eid = Some i"
    "SubsMap_FindByUspServiceSubsId (subs_map (usp_services st ! i))
             (notify_subscription_id n) = Some k"
    "USP_BROKER_HandleNotification e st usp eid mtpc =
             Some (st', DEVICE_SUBSCRIPTION_RouteNotification usp
                          (broker_instance (subs_map (usp_services st ! i) ! k)) # rest)"
    "\<forall>ev\<in>set rest. \<not> is_route ev"
    by blast
  have "filter is_route rest = []" using r(5) by (simp add: filter_empty_conv)
  then have "filter is_route (DEVICE_SUBSCRIPTION_RouteNotification usp
                          (broker_instance (subs_map (usp_services st ! i) ! k)) # rest) =
          [DEVICE_SUBSCRIPTION_RouteNotification usp
                          (broker_instance (subs_map (usp_services st ! i) ! k))]"
    by (simp add: is_route_def)
  moreover have "\<exists>ev\<in>set (DEVICE_SUBSCRIPTION_RouteNotification usp
                          (broker_instance (subs_map (usp_services st ! i) ! k)) # rest). is_route ev"
    by (simp add: is_route_def)
  ultimately show ?thesis using True r(1-4) by auto
next
  case False
  from HandleNotification_rejected [OF h False, of e mtpc]
  show ?thesis using False by (simp add: is_route_def)
qed

theorem HandleNotification_routing_witness:
  "USP_BROKER_HandleNotification example_env example_state (example_notify False) ''S1''
     conn_controller =
     Some (example_state,
           [DEVICE_SUBSCRIPTION_RouteNotification (example_notify False) 4]) \<and>
   USP_BROKER_HandleNotification example_env example_state (example_notify True) ''S1''
     conn_controller =
     Some (example_state,
           [MSG_HANDLER_QueueErrorMessage USP_ERR_REQUEST_DENIED ''S1'' conn_controller
              (Some ''n1'')])"
proof -
  define h where "h = \<lparr>msg_id = Some ''n1'', msg_type = MSG_TYPE_NOTIFY\<rparr>"
  have hf: "header (example_notify False) = Some h" "header (example_notify True) = Some h"
    by (simp_all add: example_notify_def h_def)
  have s: "usp_services example_state = [service_S1, unused_slot]"
    by (simp add: example_state_def)
  have acc: "notify_accepted_spec example_state (example_notify False) ''S1''"
    unfolding notify_accepted_spec_def
    using find_S1 by (simp add: notify_of_def example_notify_def s service_S1_def)
  have rej: "\<not> notify_accepted_spec example_state (example_notify True) ''S1''"
    by (simp add: notify_accepted_spec_def notify_of_def example_notify_def)
  from HandleNotification_routing [OF hf(2), of example_env example_state "''S1''" conn_controller] rej
  have b: "USP_BROKER_HandleNotification example_env example_state (example_notify True) ''S1''
     conn_controller =
     Some (example_state,
           [MSG_HANDLER_QueueErrorMessage USP_ERR_REQUEST_DENIED ''S1'' conn_controller
              (Some ''n1'')])"
    by (auto simp: h_def)
  from HandleNotification_routing [OF hf(1), of example_env example_state "''S1''" conn_controller] acc
  obtain st' evs where r:
    "USP_BROKER_HandleNotification example_env example_state (example_notify False) ''S1''
       conn_controller = Some (st', evs)"
    "\<exists>ev\<in>set evs. is_route ev"
    by blast
  have a: "USP_BROKER_HandleNotification example_env example_state (example_notify False) ''S1''
     conn_controller =
     Some (example_state,
           [DEVICE_SUBSCRIPTION_RouteNotification (example_notify False) 4])"
    using find_S1
    by (simp add: USP_BROKER_HandleNotification_def notify_of_def example_notify_def s
          service_S1_def SubsMap_FindByUspServiceSubsId_def Let_def notification_exit_def
          example_env_def)
  show ?thesis using a b r by simp
qed

subsection \<open>An OperationComplete that matches no active command\<close>

lemma DeleteMatchingOperateRequest_no_match:
  assumes "ReqMap_Find (req_map us) (USP_SNPRINTF (MAX_DM_PATH e) (obj_p @ command_n)) key = None"
  shows "DeleteMatchingOperateRequest e us obj_p command_n key = (us, [])"
  using assms by (simp add: DeleteMatchingOperateRequest_def)

lemma USP_SNPRINTF_fits: "length s < n \<Longrightarrow> USP_SNPRINTF n s = s"
  by (simp add: USP_SNPRINTF_def)

lemma DeleteMatchingOperateRequest_frame:
  assumes "length (obj_p @ command_n) < MAX_DM_PATH e"
  shows "DeleteMatchingOperateRequest e us obj_p command_n key =
           (case ReqMap_Find (req_map us) (obj_p @ command_n) key of
              None \<Rightarrow> (us, [])
            | Some k \<Rightarrow> (us\<lparr>req_map := unlink (req_map us) k\<rparr>,
                         [DEVICE_REQUEST_DeleteInstance (request_instance (req_map us ! k))]))"
  using assms
  by (simp add: DeleteMatchingOperateRequest_def USP_SNPRINTF_fits ReqMap_Remove_def
           del: length_append split: option.split)

text \<open>
  C10. The claim is that an OperationComplete whose full command path (\<open>obj_path\<close>
  followed by \<open>command_name\<close>) and command key match no entry of the \<open>req_map\<close> leaves
  the \<open>req_map\<close> and the Request table unchanged. The code compares the first
  \<open>MAX_DM_PATH - 1\<close> characters of the full command path: here the full path matches
  no entry (first conjunct), and yet the entry of request 7 and its row in the Request
  table are deleted. For a full path that fits the buffer the claim holds
  (\<open>DeleteMatchingOperateRequest_frame\<close>).
\<close>

theorem DeleteMatchingOperateRequest_truncated_match:
  "ReqMap_Find (req_map service_long) (''Device.'' @ (replicate 246 (CHR ''a'') @ ''()X'')) ''K'' = None \<and>
   DeleteMatchingOperateRequest example_env service_long ''Device.'' (replicate 246 (CHR ''a'') @ ''()X'') ''K'' =
     (service_long\<lparr>req_map := []\<rparr>, [DEVICE_REQUEST_DeleteInstance 7])"
proof -
  have len: "length long_command = 255" by (simp add: long_command_def)
  have full: "''Device.'' @ (replicate 246 (CHR ''a'') @ ''()X'') = long_command @ ''X''"
    by (simp add: long_command_def)
  have ne: "long_command @ ''X'' \<noteq> long_command" by simp
  have tr: "USP_SNPRINTF 256 (long_command @ ''X'') = long_command"
    using len by (simp add: USP_SNPRINTF_def)
  have a: "ReqMap_Find (req_map service_long)
             (''Device.'' @ (replicate 246 (CHR ''a'') @ ''()X'')) ''K'' = None"
    unfolding full using ne by (simp add: ReqMap_Find_def service_long_def)
  have b: "DeleteMatchingOperateRequest example_env service_long ''Device.'' (replicate 246 (CHR ''a'') @ ''()X'') ''K'' =
     (service_long\<lparr>req_map := []\<rparr>, [DEVICE_REQUEST_DeleteInstance 7])"
  proof -
    have m: "MAX_DM_PATH example_env = 256" by (simp add: example_env_def)
    have f: "ReqMap_Find (req_map service_long) long_command ''K'' = Some 0"
      by (simp add: ReqMap_Find_def service_long_def)
    have r: "req_map service_long ! 0 =
               \<lparr>request_instance = 7, rmap_path = long_command, command_key = ''K''\<rparr>"
      by (simp add: service_long_def)
    have u: "ReqMap_Remove (req_map service_long) 0 = []"
      by (simp add: service_long_def ReqMap_Remove_def unlink_def)
    show ?thesis
      by (simp only: DeleteMatchingOperateRequest_def m full tr f r u Let_def option.case
                     req_map_t.select_convs)
  qed
  show ?thesis using a b by (rule conjI)
qed

subsection \<open>Registering paths\<close>

lemma ValidateUspServicePath_result:
  "ValidateUspServicePath p = USP_ERR_OK \<or> ValidateUspServicePath p = USP_ERR_REGISTER_FAILURE"
  by (simp add: ValidateUspServicePath_def)

lemma STR_VECTOR_Find_iff: "STR_VECTOR_Find sv s \<noteq> INVALID \<longleftrightarrow> s \<in> set sv"
proof (cases "find_first (\<lambda>x. x = s) sv")
  case None
  then have "s \<notin> set sv"
    using find_first_None_iff [of "\<lambda>x. x = s" sv] by blast
  then show ?thesis using None by (simp add: STR_VECTOR_Find_def)
next
  case (Some k)
  from find_first_Some [OF Some] have "s \<in> set sv" by (metis nth_mem)
  then show ?thesis using Some by (simp add: STR_VECTOR_Find_def INVALID_def)
qed

lemma owner_loop_None_iff:
  "find_first (\<lambda>p. STR_VECTOR_Find (registered_paths p) x \<noteq> INVALID) svcs = None
     \<longleftrightarrow> \<not> owned svcs x"
  by (auto simp: find_first_None_iff STR_VECTOR_Find_iff owned_def)

lemma RegisterUspServicePath_cases:
  "RegisterUspServicePath e svcs i p =
     (if owned svcs p then (svcs, USP_ERR_PATH_ALREADY_REGISTERED)
      else if ValidateUspServicePath p \<noteq> USP_ERR_OK then (svcs, USP_ERR_REGISTER_FAILURE)
      else if exists_in_schema e p then (svcs, USP_ERR_PATH_ALREADY_REGISTERED)
      else (svcs[i := (svcs ! i)\<lparr>registered_paths := registered_paths (svcs ! i) @ [p]\<rparr>],
            USP_ERR_OK))"
proof (cases "owned svcs p")
  case True
  then have "find_first (\<lambda>q. STR_VECTOR_Find (registered_paths q) p \<noteq> INVALID) svcs \<noteq> None"
    by (simp add: owner_loop_None_iff)
  then show ?thesis using True by (auto simp: RegisterUspServicePath_def)
next
  case False
  then have "find_first (\<lambda>q. STR_VECTOR_Find (registered_paths q) p \<noteq> INVALID) svcs = None"
    by (simp add: owner_loop_None_iff)
  moreover have "ValidateUspServicePath p \<noteq> USP_ERR_OK \<Longrightarrow>
                 ValidateUspServicePath p = USP_ERR_REGISTER_FAILURE"
    using ValidateUspServicePath_result [of p] by blast
  ultimately show ?thesis using False
    by (auto simp: RegisterUspServicePath_def Let_def STR_VECTOR_Add_def)
qed

lemma concat_update_append:
  "i < length xs \<Longrightarrow> distinct (concat xs) \<Longrightarrow> p \<notin> set (concat xs) \<Longrightarrow>
   distinct (concat (xs[i := xs ! i @ [p]]))"
proof (induction xs arbitrary: i)
  case Nil
  then show ?case by simp
next
  case (Cons x xs)
  show ?case
  proof (cases i)
    case 0
    with Cons.prems show ?thesis by auto
  next
    case (Suc j)
    with Cons.prems have "distinct (concat (xs[j := xs ! j @ [p]]))"
      using Cons.IH [of j] by simp
    moreover have "set (concat (xs[j := xs ! j @ [p]])) \<subseteq> insert p (set (concat xs))"
    proof
      fix a assume "a \<in> set (concat (xs[j := xs ! j @ [p]]))"
      then obtain l where l: "l \<in> set (xs[j := xs ! j @ [p]])" "a \<in> set l" by auto
      from l(1) have "l = xs ! j @ [p] \<or> l \<in> set xs"
        using set_update_subset_insert [of xs j "xs ! j @ [p]"] by auto
      moreover have "xs ! j \<in> set xs" using Suc Cons.prems(1) by simp
      ultimately show "a \<in> insert p (set (concat xs))" using l(2) by auto
    qed
    ultimately show ?thesis using Suc Cons.prems by auto
  qed
qed

lemma concat_update_subset:
  "distinct (concat xs) \<Longrightarrow> distinct y \<Longrightarrow> set y \<subseteq> set (xs ! i) \<Longrightarrow>
   distinct (concat (xs[i := y]))"
proof (induction xs arbitrary: i)
  case Nil
  then show ?case by simp
next
  case (Cons x xs)
  show ?case
  proof (cases i)
    case 0
    with Cons.prems show ?thesis by auto
  next
    case (Suc j)
    show ?thesis
    proof (cases "j < length xs")
      case True
      with Suc Cons.prems have d: "distinct (concat (xs[j := y]))"
        using Cons.IH [of j] by simp
      have "set (concat (xs[j := y])) \<subseteq> set (concat xs)"
      proof
        fix a assume "a \<in> set (concat (xs[j := y]))"
        then obtain l where l: "l \<in> set (xs[j := y])" "a \<in> set l" by auto
        from l(1) have "l = y \<or> l \<in> set xs"
          using set_update_subset_insert [of xs j y] by auto
        then show "a \<in> set (concat xs)"
          using l(2) Cons.prems(3) Suc True by (auto intro: nth_mem)
      qed
      with d Suc Cons.prems show ?thesis by auto
    next
      case False
      then have "xs[j := y] = xs" by (simp add: list_update_beyond)
      then show ?thesis using Suc Cons.prems by simp
    qed
  qed
qed

lemma map_update_same: "f y = f (xs ! i) \<Longrightarrow> map f (xs[i := y]) = map f xs"
proof (cases "i < length xs")
  case True
  assume "f y = f (xs ! i)"
  with True show ?thesis by (simp add: map_update list_update_same_conv)
next
  case False
  then show ?thesis by (simp add: list_update_beyond)
qed

lemma RegisterUspServicePath_no_shared_paths:
  assumes "no_shared_paths svcs"
  shows "no_shared_paths (fst (RegisterUspServicePath e svcs i p))"
proof (cases "i < length svcs")
  case True
  have "distinct (concat ((map registered_paths svcs)[i := map registered_paths svcs ! i @ [p]]))"
    if "\<not> owned svcs p"
    using concat_update_append [of i "map registered_paths svcs" p] assms True that
    by (simp add: no_shared_paths_def owned_def)
  then show ?thesis
    using assms True
    by (simp add: RegisterUspServicePath_cases no_shared_paths_def map_update)
next
  case False
  then have "svcs[i := u] = svcs" for u by (simp add: list_update_beyond)
  then show ?thesis using assms by (simp add: RegisterUspServicePath_cases)
qed

lemma RegisterUspServicePath_refused:
  "path_refused e svcs p \<Longrightarrow>
   \<exists>err. err \<noteq> USP_ERR_OK \<and> RegisterUspServicePath e svcs i p = (svcs, err)"
  by (auto simp: RegisterUspServicePath_cases path_refused_def)

lemma RegisterUspServicePath_accepted:
  "\<not> path_refused e svcs p \<Longrightarrow>
   RegisterUspServicePath e svcs i p = (add_path svcs i p, USP_ERR_OK)"
  by (simp add: RegisterUspServicePath_cases path_refused_def add_path_def)

lemma set_concat_update_append:
  "i < length xs \<Longrightarrow> set (concat (xs[i := xs ! i @ [p]])) = insert p (set (concat xs))"
proof (induction xs arbitrary: i)
  case Nil
  then show ?case by simp
next
  case (Cons x xs)
  then show ?case by (cases i) auto
qed

lemma owned_add_path:
  "i < length svcs \<Longrightarrow> owned (add_path svcs i p) q \<longleftrightarrow> owned svcs q \<or> q = p"
proof -
  assume il: "i < length svcs"
  have "map registered_paths (add_path svcs i p) =
        (map registered_paths svcs)[i := map registered_paths svcs ! i @ [p]]"
    using il by (simp add: add_path_def map_update)
  then have "set (concat (map registered_paths (add_path svcs i p))) =
        insert p (set (concat (map registered_paths svcs)))"
    using set_concat_update_append [of i "map registered_paths svcs" p] il by simp
  then show ?thesis by (auto simp: owned_def)
qed

lemma clear_paths_add_path: "i < length svcs \<Longrightarrow> clear_paths (add_path svcs i p) i = clear_paths svcs i"
  by (simp add: clear_paths_def add_path_def)

lemma register_paths_loop_all_or_nothing:
  assumes "i < length svcs"
    and "(\<exists>p\<in>set ps. path_refused e svcs p) \<or> \<not> distinct ps"
  shows "\<exists>err. err \<noteq> USP_ERR_OK \<and>
           register_paths_loop e mid False i ps svcs results cnt =
             (clear_paths svcs i, ERROR_RESP_CreateSingle mid err, 0)"
  using assms
proof (induction ps arbitrary: svcs results cnt)
  case Nil
  then show ?case by simp
next
  case (Cons p ps)
  show ?case
  proof (cases "path_refused e svcs p")
    case True
    from RegisterUspServicePath_refused [OF True, of i]
    obtain err where "err \<noteq> USP_ERR_OK" "RegisterUspServicePath e svcs i p = (svcs, err)"
      by blast
    then show ?thesis by (auto simp: clear_paths_def STR_VECTOR_Destroy_def)
  next
    case False
    have step: "RegisterUspServicePath e svcs i p = (add_path svcs i p, USP_ERR_OK)"
      using RegisterUspServicePath_accepted [OF False] .
    have len: "i < length (add_path svcs i p)" using Cons.prems(1) by (simp add: add_path_def)
    have "(\<exists>q\<in>set ps. path_refused e (add_path svcs i p) q) \<or> \<not> distinct ps"
    proof -
      from Cons.prems(2) False
      consider "\<exists>q\<in>set ps. path_refused e svcs q" | "p \<in> set ps" | "\<not> distinct ps"
        by auto
      then show ?thesis
      proof cases
        case 1
        then show ?thesis
          using owned_add_path [OF Cons.prems(1)] by (auto simp: path_refused_def)
      next
        case 2
        then show ?thesis
          using owned_add_path [OF Cons.prems(1)] by (auto simp: path_refused_def)
      next
        case 3
        then show ?thesis by simp
      qed
    qed
    from Cons.IH [OF len this, of "AddRegisterResp_RegisteredPathResult results p USP_ERR_OK" "cnt + 1"]
    show ?thesis
      using step Cons.prems(1) by (simp add: clear_paths_add_path)
  qed
qed

lemma register_paths_loop_all_accepted:
  assumes "i < length svcs"
    and "\<forall>p\<in>set ps. \<not> path_refused e svcs p" and "distinct ps"
  shows "register_paths_loop e mid ap i ps svcs results cnt =
           (svcs[i := (svcs ! i)\<lparr>registered_paths := registered_paths (svcs ! i) @ ps\<rparr>],
            CreateRegisterResp mid
              (results @ map (\<lambda>p. \<lparr>requested_path = p, oper_status = OPER_STATUS_OPER_SUCCESS p\<rparr>) ps),
            cnt + length ps)"
  using assms
proof (induction ps arbitrary: svcs results cnt)
  case Nil
  then show ?case by simp
next
  case (Cons p ps)
  have np: "\<not> path_refused e svcs p" using Cons.prems(2) by simp
  have step: "RegisterUspServicePath e svcs i p = (add_path svcs i p, USP_ERR_OK)"
    using RegisterUspServicePath_accepted [OF np] .
  have len: "i < length (add_path svcs i p)" using Cons.prems(1) by (simp add: add_path_def)
  have rest: "\<forall>q\<in>set ps. \<not> path_refused e (add_path svcs i p) q"
    using Cons.prems(2,3) owned_add_path [OF Cons.prems(1)] by (auto simp: path_refused_def)
  have d: "distinct ps" using Cons.prems(3) by simp
  from Cons.IH [OF len rest d, of "AddRegisterResp_RegisteredPathResult results p USP_ERR_OK" "cnt + 1"]
  show ?case
    using step Cons.prems(1)
    by (simp add: add_path_def AddRegisterResp_RegisteredPathResult_def)
qed

lemma register_paths_loop_shape:
  assumes "i < length svcs"
    and "register_paths_loop e mid ap i ps svcs results cnt = (svcs', resp, cnt')"
  shows "(\<exists>X. svcs' = svcs[i := (svcs ! i)\<lparr>registered_paths := X\<rparr>]) \<and>
         ((registered_paths (svcs' ! i) = [] \<and> cnt' = 0 \<and>
           (\<exists>err. err \<noteq> USP_ERR_OK \<and> resp = ERROR_RESP_CreateSingle mid err)) \<or>
          (cnt' = cnt + length ps \<and>
           (\<exists>rs. map requested_path rs = ps \<and> resp = CreateRegisterResp mid (results @ rs) \<and>
                 registered_paths (svcs' ! i) =
                   registered_paths (svcs ! i) @
                   map requested_path (filter (\<lambda>r. oper_status r = OPER_STATUS_OPER_SUCCESS (requested_path r)) rs))))"
  using assms
proof (induction ps arbitrary: svcs results cnt)
  case Nil
  have "(svcs ! i)\<lparr>registered_paths := registered_paths (svcs ! i)\<rparr> = svcs ! i"
    by (cases "svcs ! i") simp
  then have "svcs = svcs[i := (svcs ! i)\<lparr>registered_paths := registered_paths (svcs ! i)\<rparr>]"
    by simp
  then have "\<exists>X. svcs = svcs[i := (svcs ! i)\<lparr>registered_paths := X\<rparr>]" ..
  then show ?case using Nil by auto
next
  case (Cons p ps)
  show ?case
  proof (cases "path_refused e svcs p")
    case True
    from RegisterUspServicePath_refused [OF True, of i]
    obtain err where err: "err \<noteq> USP_ERR_OK" "RegisterUspServicePath e svcs i p = (svcs, err)"
      by blast
    show ?thesis
    proof (cases ap)
      case False
      with err Cons.prems have r: "svcs' = svcs[i := (svcs ! i)\<lparr>registered_paths := []\<rparr>]"
        "resp = ERROR_RESP_CreateSingle mid err" "cnt' = 0"
        by (auto simp: STR_VECTOR_Destroy_def)
      then show ?thesis using err(1) Cons.prems(1) by auto
    next
      case True
      with err Cons.prems have rec: "register_paths_loop e mid ap i ps svcs
             (AddRegisterResp_RegisteredPathResult results p err) (cnt + 1) = (svcs', resp, cnt')"
        by simp
      from Cons.IH [OF Cons.prems(1) rec]
      have ih: "(\<exists>X. svcs' = svcs[i := (svcs ! i)\<lparr>registered_paths := X\<rparr>]) \<and>
         ((registered_paths (svcs' ! i) = [] \<and> cnt' = 0 \<and>
           (\<exists>err. err \<noteq> USP_ERR_OK \<and> resp = ERROR_RESP_CreateSingle mid err)) \<or>
          (cnt' = cnt + 1 + length ps \<and>
           (\<exists>rs. map requested_path rs = ps \<and>
                 resp = CreateRegisterResp mid
                          (AddRegisterResp_RegisteredPathResult results p err @ rs) \<and>
                 registered_paths (svcs' ! i) =
                   registered_paths (svcs ! i) @
                   map requested_path (filter (\<lambda>r. oper_status r = OPER_STATUS_OPER_SUCCESS (requested_path r)) rs))))" .
      show ?thesis
      proof (cases "registered_paths (svcs' ! i) = [] \<and> cnt' = 0 \<and>
           (\<exists>err. err \<noteq> USP_ERR_OK \<and> resp = ERROR_RESP_CreateSingle mid err)")
        case True
        then show ?thesis using ih by blast
      next
        case False
        with ih obtain rs where rs: "cnt' = cnt + 1 + length ps" "map requested_path rs = ps"
          "resp = CreateRegisterResp mid (AddRegisterResp_RegisteredPathResult results p err @ rs)"
          "registered_paths (svcs' ! i) =
                   registered_paths (svcs ! i) @
                   map requested_path (filter (\<lambda>r. oper_status r = OPER_STATUS_OPER_SUCCESS (requested_path r)) rs)"
          by blast
        define r0 where "r0 = \<lparr>requested_path = p, oper_status = OPER_STATUS_OPER_FAILURE err\<rparr>"
        have "map requested_path (r0 # rs) = p # ps" using rs(2) by (simp add: r0_def)
        moreover have "resp = CreateRegisterResp mid (results @ (r0 # rs))"
          using rs(3) err(1) by (simp add: AddRegisterResp_RegisteredPathResult_def r0_def)
        moreover have "registered_paths (svcs' ! i) =
                   registered_paths (svcs ! i) @
                   map requested_path (filter (\<lambda>r. oper_status r = OPER_STATUS_OPER_SUCCESS (requested_path r)) (r0 # rs))"
          using rs(4) by (simp add: r0_def)
        moreover have "cnt' = cnt + length (p # ps)" using rs(1) by simp
        ultimately have "cnt' = cnt + length (p # ps) \<and>
           (\<exists>rs. map requested_path rs = p # ps \<and> resp = CreateRegisterResp mid (results @ rs) \<and>
                 registered_paths (svcs' ! i) =
                   registered_paths (svcs ! i) @
                   map requested_path (filter (\<lambda>r. oper_status r = OPER_STATUS_OPER_SUCCESS (requested_path r)) rs))"
          by (intro conjI exI [of _ "r0 # rs"])
        then show ?thesis by (rule conjI [OF conjunct1 [OF ih] disjI2])
      qed
    qed
  next
    case False
    have step: "RegisterUspServicePath e svcs i p = (add_path svcs i p, USP_ERR_OK)"
      using RegisterUspServicePath_accepted [OF False] .
    have len: "i < length (add_path svcs i p)" using Cons.prems(1) by (simp add: add_path_def)
    from step Cons.prems have rec: "register_paths_loop e mid ap i ps (add_path svcs i p)
             (AddRegisterResp_RegisteredPathResult results p USP_ERR_OK) (cnt + 1) = (svcs', resp, cnt')"
      by simp
    have nth: "add_path svcs i p ! i = (svcs ! i)\<lparr>registered_paths := registered_paths (svcs ! i) @ [p]\<rparr>"
      using Cons.prems(1) by (simp add: add_path_def)
    from Cons.IH [OF len rec]
    have ih: "(\<exists>X. svcs' = (add_path svcs i p)[i := (add_path svcs i p ! i)\<lparr>registered_paths := X\<rparr>]) \<and>
         ((registered_paths (svcs' ! i) = [] \<and> cnt' = 0 \<and>
           (\<exists>err. err \<noteq> USP_ERR_OK \<and> resp = ERROR_RESP_CreateSingle mid err)) \<or>
          (cnt' = cnt + 1 + length ps \<and>
           (\<exists>rs. map requested_path rs = ps \<and>
                 resp = CreateRegisterResp mid
                          (AddRegisterResp_RegisteredPathResult results p USP_ERR_OK @ rs) \<and>
                 registered_paths (svcs' ! i) =
                   registered_paths (add_path svcs i p ! i) @
                   map requested_path (filter (\<lambda>r. oper_status r = OPER_STATUS_OPER_SUCCESS (requested_path r)) rs))))" .
    have shape: "\<exists>X. svcs' = svcs[i := (svcs ! i)\<lparr>registered_paths := X\<rparr>]"
    proof -
      from ih obtain X where "svcs' = (add_path svcs i p)[i := (add_path svcs i p ! i)\<lparr>registered_paths := X\<rparr>]"
        by blast
      then have "svcs' = svcs[i := (svcs ! i)\<lparr>registered_paths := X\<rparr>]"
        using nth by (simp add: add_path_def)
      then show ?thesis ..
    qed
    show ?thesis
    proof (cases "registered_paths (svcs' ! i) = [] \<and> cnt' = 0 \<and>
           (\<exists>err. err \<noteq> USP_ERR_OK \<and> resp = ERROR_RESP_CreateSingle mid err)")
      case True
      then show ?thesis using shape by blast
    next
      case False
      with ih obtain rs where rs: "cnt' = cnt + 1 + length ps" "map requested_path rs = ps"
        "resp = CreateRegisterResp mid (AddRegisterResp_RegisteredPathResult results p USP_ERR_OK @ rs)"
        "registered_paths (svcs' ! i) =
                 registered_paths (add_path svcs i p ! i) @
                 map requested_path (filter (\<lambda>r. oper_status r = OPER_STATUS_OPER_SUCCESS (requested_path r)) rs)"
        by blast
      define r0 where "r0 = \<lparr>requested_path = p, oper_status = OPER_STATUS_OPER_SUCCESS p\<rparr>"
      have "map requested_path (r0 # rs) = p # ps" using rs(2) by (simp add: r0_def)
      moreover have "resp = CreateRegisterResp mid (results @ (r0 # rs))"
        using rs(3) by (simp add: AddRegisterResp_RegisteredPathResult_def r0_def)
      moreover have "registered_paths (svcs' ! i) =
                 registered_paths (svcs ! i) @
                 map requested_path (filter (\<lambda>r. oper_status r = OPER_STATUS_OPER_SUCCESS (requested_path r)) (r0 # rs))"
        using rs(4) nth by (simp add: r0_def)
      moreover have "cnt' = cnt + length (p # ps)" using rs(1) by simp
      ultimately have "cnt' = cnt + length (p # ps) \<and>
           (\<exists>rs. map requested_path rs = p # ps \<and> resp = CreateRegisterResp mid (results @ rs) \<and>
                 registered_paths (svcs' ! i) =
                   registered_paths (svcs ! i) @
                   map requested_path (filter (\<lambda>r. oper_status r = OPER_STATUS_OPER_SUCCESS (requested_path r)) rs))"
        by (intro conjI exI [of _ "r0 # rs"])
      then show ?thesis by (rule conjI [OF shape disjI2])
    qed
  qed
qed

lemma register_paths_loop_no_shared_paths:
  "no_shared_paths svcs \<Longrightarrow>
   no_shared_paths (fst (register_paths_loop e mid ap i ps svcs results cnt))"
proof (induction ps arbitrary: svcs results cnt)
  case Nil
  then show ?case by simp
next
  case (Cons p ps)
  obtain svcs1 err where s: "RegisterUspServicePath e svcs i p = (svcs1, err)"
    by (cases "RegisterUspServicePath e svcs i p") auto
  have n1: "no_shared_paths svcs1"
    using RegisterUspServicePath_no_shared_paths [OF Cons.prems, of e i p] s by simp
  show ?case
  proof (cases "err \<noteq> USP_ERR_OK \<and> ap = False")
    case True
    have "distinct (concat ((map registered_paths svcs1)[i := []]))"
      using concat_update_subset [of "map registered_paths svcs1" "[]" i] n1
      by (simp add: no_shared_paths_def)
    then have "no_shared_paths (svcs1[i := (svcs1 ! i)\<lparr>registered_paths := []\<rparr>])"
      by (simp add: no_shared_paths_def map_update)
    then show ?thesis using s True by (simp add: STR_VECTOR_Destroy_def)
  next
    case False
    then show ?thesis using s Cons.IH [OF n1] by auto
  qed
qed

lemma set_service_paths:
  "registered_paths us = registered_paths (usp_services st ! i) \<Longrightarrow>
   map registered_paths (usp_services (set_service st i us)) = map registered_paths (usp_services st)"
  by (simp add: set_service_def map_update_same)

lemma no_shared_paths_cong:
  "map registered_paths svcs' = map registered_paths svcs \<Longrightarrow>
   no_shared_paths svcs' = no_shared_paths svcs"
  by (simp add: no_shared_paths_def)

lemma UpdateUspServiceMRT_frame:
  "UpdateUspServiceMRT us mtpc = Some (us1, evs) \<Longrightarrow>
   registered_paths us1 = registered_paths us \<and> us_instance us1 = us_instance us \<and>
   endpoint_id us1 = endpoint_id us \<and> group_id us1 = group_id us \<and>
   subs_map us1 = subs_map us \<and> req_map us1 = req_map us \<and> msg_map us1 = msg_map us \<and>
   gsdm_msg_id us1 = gsdm_msg_id us \<and> has_controller us1 = has_controller us"
  by (auto simp: UpdateUspServiceMRT_def split: if_splits uds_path_t.splits)

lemma UpdateUspServiceMRT_Some:
  "\<not> (protocol mtpc = kMtpProtocol_UDS \<and> uds_path_type mtpc = kUdsPathType_Invalid) \<Longrightarrow>
   \<exists>us1 evs. UpdateUspServiceMRT us mtpc = Some (us1, evs)"
  by (cases "uds_path_type mtpc") (auto simp: UpdateUspServiceMRT_def)

lemma mark_has_controller_paths:
  "registered_paths (mark_has_controller us mtpc) = registered_paths us"
  by (simp add: mark_has_controller_def)

lemma no_shared_paths_clear:
  "no_shared_paths svcs \<Longrightarrow> registered_paths us = [] \<Longrightarrow> no_shared_paths (svcs[i := us])"
proof -
  assume a: "no_shared_paths svcs" and b: "registered_paths us = []"
  have "distinct (concat ((map registered_paths svcs)[i := []]))"
    using concat_update_subset [of "map registered_paths svcs" "[]" i] a
    by (simp add: no_shared_paths_def)
  then show ?thesis using b by (simp add: no_shared_paths_def map_update)
qed

lemma AddUspService_no_shared_paths:
  assumes "AddUspService e st eid mtpc = Some (st', evs, r)"
    and "no_shared_paths (usp_services st)"
  shows "no_shared_paths (usp_services st')"
proof (cases "FindUnusedUspService (usp_services st)")
  case None
  with assms show ?thesis by (simp add: AddUspService_def)
next
  case (Some i)
  show ?thesis
  proof (cases "find_unused_group_id e = INVALID")
    case True
    with assms Some show ?thesis by (simp add: AddUspService_def)
  next
    case False
    define us where "us = zero_service
                       \<lparr>us_instance := CalcNextUspServiceInstanceNumber ((usp_services st)[i := zero_service]),
                        endpoint_id := eid,
                        group_id := find_unused_group_id e,
                        has_controller := False,
                        registered_paths := [],
                        subs_map := [],
                        req_map := [],
                        msg_map := [],
                        controller_mtp := zero_mtp_conn\<lparr>protocol := kMtpProtocol_None\<rparr>,
                        agent_mtp := zero_mtp_conn\<lparr>protocol := kMtpProtocol_None\<rparr>\<rparr>"
    from assms(1) Some False obtain us1 evs1 where
      u: "UpdateUspServiceMRT us mtpc = Some (us1, evs1)" and s: "st' = set_service st i us1"
      by (auto simp: AddUspService_def Let_def us_def split: option.splits)
    have "registered_paths us1 = []"
      using UpdateUspServiceMRT_frame [OF u] by (simp add: us_def)
    then show ?thesis
      using no_shared_paths_clear [OF assms(2)] s by (simp add: set_service_def)
  qed
qed

lemma USP_BROKER_AddUspService_no_shared_paths:
  assumes "USP_BROKER_AddUspService e st eid mtpc = Some (err, st', evs)"
    and "no_shared_paths (usp_services st)"
  shows "no_shared_paths (usp_services st')"
proof (cases "FindUspServiceByEndpoint (usp_services st) eid")
  case (Some i)
  with assms(1) obtain us1 evs1 where
    u: "UpdateUspServiceMRT (usp_services st ! i) mtpc = Some (us1, evs1)"
    and s: "st' = set_service st i (mark_has_controller us1 mtpc)"
    by (auto simp: USP_BROKER_AddUspService_def split: option.splits)
  have "registered_paths (mark_has_controller us1 mtpc) = registered_paths (usp_services st ! i)"
    using UpdateUspServiceMRT_frame [OF u] by (simp add: mark_has_controller_paths)
  from set_service_paths [OF this] show ?thesis
    using assms(2) s by (simp add: no_shared_paths_def)
next
  case None
  with assms(1) obtain st1 evs1 r where a: "AddUspService e st eid mtpc = Some (st1, evs1, r)"
    by (auto simp: USP_BROKER_AddUspService_def split: option.splits)
  have n1: "no_shared_paths (usp_services st1)"
    using AddUspService_no_shared_paths [OF a assms(2)] .
  show ?thesis
  proof (cases r)
    case None
    with assms(1) a \<open>FindUspServiceByEndpoint (usp_services st) eid = None\<close> have "st' = st1"
      by (simp add: USP_BROKER_AddUspService_def)
    then show ?thesis using n1 by simp
  next
    case (Some i)
    with assms(1) a \<open>FindUspServiceByEndpoint (usp_services st) eid = None\<close>
    have "st' = st1 \<or> st' = set_service st1 i (mark_has_controller (usp_services st1 ! i) mtpc)"
      by (auto simp: USP_BROKER_AddUspService_def Let_def split: if_splits)
    moreover have "map registered_paths
             (usp_services (set_service st1 i (mark_has_controller (usp_services st1 ! i) mtpc))) =
           map registered_paths (usp_services st1)"
      by (rule set_service_paths) (simp add: mark_has_controller_paths)
    ultimately show ?thesis using n1 by (auto simp: no_shared_paths_def)
  qed
qed

lemma CalcBrokerMessageId_services:
  "CalcBrokerMessageId e st n = (mid, st1) \<Longrightarrow> usp_services st1 = usp_services st"
  by (auto simp: CalcBrokerMessageId_def Let_def)

lemma QueueGetSupportedDM_paths:
  "QueueGetSupportedDMToUspService e st i = (st', evs) \<Longrightarrow>
   map registered_paths (usp_services st') = map registered_paths (usp_services st)"
proof -
  assume a: "QueueGetSupportedDMToUspService e st i = (st', evs)"
  obtain mid st1 where c: "CalcBrokerMessageId e st (MAX_MSG_ID_LEN e) = (mid, st1)"
    by (cases "CalcBrokerMessageId e st (MAX_MSG_ID_LEN e)") auto
  have s1: "usp_services st1 = usp_services st" using CalcBrokerMessageId_services [OF c] .
  from a c have "st' = st \<or> st' = set_service st1 i ((usp_services st ! i)\<lparr>gsdm_msg_id := Some mid\<rparr>)"
    by (auto simp: QueueGetSupportedDMToUspService_def Let_def split: if_splits)
  moreover have "map registered_paths (usp_services
           (set_service st1 i ((usp_services st ! i)\<lparr>gsdm_msg_id := Some mid\<rparr>))) =
         map registered_paths (usp_services st1)"
    by (rule set_service_paths) (simp add: s1)
  ultimately show ?thesis using s1 by auto
qed

lemma register_paths_no_shared_paths:
  assumes "register_paths e st evs mid reg i eid mtpc = (st', evs')"
    and "no_shared_paths (usp_services st)"
  shows "no_shared_paths (usp_services st')"
proof -
  obtain svcs1 resp cnt where l:
    "register_paths_loop e mid (allow_partial reg) i (reg_paths reg) (usp_services st) [] 0 =
       (svcs1, resp, cnt)"
    by (cases "register_paths_loop e mid (allow_partial reg) i (reg_paths reg) (usp_services st) [] 0")
       auto
  have n1: "no_shared_paths svcs1"
    using register_paths_loop_no_shared_paths [OF assms(2), of e mid "allow_partial reg" i
        "reg_paths reg" "[]" 0] l by simp
  show ?thesis
  proof (cases "cnt > 0")
    case False
    with assms(1) l have "usp_services st' = svcs1" by (auto simp: register_paths_def)
    then show ?thesis using n1 by simp
  next
    case True
    obtain st2 evs2 where q: "QueueGetSupportedDMToUspService e (st\<lparr>usp_services := svcs1\<rparr>) i = (st2, evs2)"
      by (cases "QueueGetSupportedDMToUspService e (st\<lparr>usp_services := svcs1\<rparr>) i") auto
    with assms(1) l True have "st' = st2" by (auto simp: register_paths_def)
    then show ?thesis using QueueGetSupportedDM_paths [OF q] n1 by (simp add: no_shared_paths_def)
  qed
qed

lemma HandleRegister_no_shared_paths:
  assumes "USP_BROKER_HandleRegister e st usp eid mtpc = Some (st', evs)"
    and "no_shared_paths (usp_services st)"
  shows "no_shared_paths (usp_services st')"
proof -
  from assms(1) obtain h where h: "header usp = Some h"
    by (auto simp: USP_BROKER_HandleRegister_def split: option.splits)
  show ?thesis
  proof (cases "register_of usp")
    case None
    with assms h show ?thesis by (auto simp: USP_BROKER_HandleRegister_def Let_def)
  next
    case (Some reg)
    show ?thesis
    proof (cases "reg_paths reg = []")
      case True
      with assms h Some show ?thesis by (auto simp: USP_BROKER_HandleRegister_def Let_def)
    next
      case False
      show ?thesis
      proof (cases "FindUspServiceByEndpoint (usp_services st) eid")
        case (Some i)
        show ?thesis
        proof (cases "registered_paths (usp_services st ! i) \<noteq> []")
          case True
          with assms h \<open>register_of usp = Some reg\<close> False Some show ?thesis
            by (auto simp: USP_BROKER_HandleRegister_def Let_def)
        next
          case nopaths: False
          with assms(1) h \<open>register_of usp = Some reg\<close> False Some
          have "register_paths e st [] (msg_id h) reg i eid mtpc = (st', evs)"
            by (auto simp: USP_BROKER_HandleRegister_def Let_def)
          from register_paths_no_shared_paths [OF this assms(2)] show ?thesis .
        qed
      next
        case None
        with assms(1) h \<open>register_of usp = Some reg\<close> False
        obtain st1 evs1 r where a: "AddUspService e st eid mtpc = Some (st1, evs1, r)"
          by (auto simp: USP_BROKER_HandleRegister_def Let_def split: option.splits)
        have n1: "no_shared_paths (usp_services st1)"
          using AddUspService_no_shared_paths [OF a assms(2)] .
        show ?thesis
        proof (cases r)
          case None
          with assms(1) h \<open>register_of usp = Some reg\<close> False a
            \<open>FindUspServiceByEndpoint (usp_services st) eid = None\<close>
          have "st' = st1" by (auto simp: USP_BROKER_HandleRegister_def Let_def)
          then show ?thesis using n1 by simp
        next
          case (Some i)
          define path where "path = USP_SNPRINTF (MAX_DM_PATH e)
                                        (DEVICE_SERVICE_ROOT @ ''.'' @
                                         printf_d (us_instance (usp_services st1 ! i)))"
          from assms(1) h \<open>register_of usp = Some reg\<close> False a Some
            \<open>FindUspServiceByEndpoint (usp_services st) eid = None\<close>
          have "st' = st1 \<or>
                register_paths e st1 (evs1 @ [USP_DM_InformInstance path]) (msg_id h) reg i eid mtpc
                  = (st', evs)"
            by (auto simp: USP_BROKER_HandleRegister_def Let_def path_def split: if_splits)
          then show ?thesis using n1 register_paths_no_shared_paths by blast
        qed
      qed
    qed
  qed
qed

lemma DeleteMatchingOperateRequest_paths:
  "DeleteMatchingOperateRequest e us a b c = (us1, evs) \<Longrightarrow>
   registered_paths us1 = registered_paths us"
  by (auto simp: DeleteMatchingOperateRequest_def Let_def split: option.splits)

lemma HandleNotification_paths:
  assumes "USP_BROKER_HandleNotification e st usp eid mtpc = Some (st', evs)"
  shows "map registered_paths (usp_services st') = map registered_paths (usp_services st)"
proof -
  have ex: "notification_exit s evs0 err usp eid mtpc = Some (st', evs) \<Longrightarrow> st' = s" for s evs0 err
    by (auto simp: notification_exit_def split: if_splits option.splits)
  show ?thesis
    using assms
    by (auto simp: USP_BROKER_HandleNotification_def Let_def set_service_paths
             split: option.splits if_splits usp_notification.splits prod.splits
             dest!: ex DeleteMatchingOperateRequest_paths)
qed

lemma AttemptPassThruForResponse_paths:
  assumes "AttemptPassThruForResponse st usp eid = (b, st', evs)"
  shows "map registered_paths (usp_services st') = map registered_paths (usp_services st)"
  using assms
  by (auto simp: AttemptPassThruForResponse_def Let_def set_service_paths MsgMap_Remove_def
           split: option.splits if_splits)

lemma PassThruToUspService_paths:
  assumes "PassThruToUspService e st i usp eid mtpc = Some (err, st', usp', evs)"
  shows "map registered_paths (usp_services st') = map registered_paths (usp_services st)"
proof -
  obtain mid st1 where c: "CalcBrokerMessageId e st (MAX_MSG_ID_LEN e) = (mid, st1)"
    by (cases "CalcBrokerMessageId e st (MAX_MSG_ID_LEN e)") auto
  have s1: "usp_services st1 = usp_services st" using CalcBrokerMessageId_services [OF c] .
  show ?thesis
    using assms c s1
    by (auto simp: PassThruToUspService_def Let_def set_service_paths
             split: option.splits if_splits)
qed

lemma Init_no_shared_paths: "no_shared_paths (usp_services (snd (USP_BROKER_Init USP_ERR_OK st0)))"
proof -
  have c: "concat (map (\<lambda>us. []) xs) = ([] :: string list)" for xs :: "usp_service_t list"
    by (induction xs) simp_all
  have "concat (map registered_paths (usp_services (snd (USP_BROKER_Init USP_ERR_OK st0)))) = []"
    by (simp add: USP_BROKER_Init_def comp_def zero_service_def c)
  then show ?thesis by (simp only: no_shared_paths_def distinct.simps)
qed

lemma distinct_count_list: "distinct xs \<longleftrightarrow> (\<forall>p. count_list xs p \<le> 1)"
proof (induction xs)
  case Nil
  then show ?case by simp
next
  case (Cons x xs)
  show ?case
  proof
    assume d: "distinct (x # xs)"
    then have "count_list xs x = 0" by (simp add: count_list_0_iff)
    moreover have "\<forall>p. count_list xs p \<le> 1" using d Cons.IH by simp
    ultimately show "\<forall>p. count_list (x # xs) p \<le> 1" by simp
  next
    assume c: "\<forall>p. count_list (x # xs) p \<le> 1"
    have "count_list (x # xs) x \<le> 1" using c by blast
    then have "x \<notin> set xs" by (simp add: count_list_0_iff)
    moreover have "\<forall>p. count_list xs p \<le> 1"
    proof
      fix p
      have "count_list (x # xs) p \<le> 1" using c by blast
      then show "count_list xs p \<le> 1" by (simp split: if_splits)
    qed
    ultimately show "distinct (x # xs)" using Cons.IH by simp
  qed
qed

lemma paths_kept_or_removed_count:
  "paths_kept_or_removed svcs svcs' \<Longrightarrow>
   count_list (concat (map registered_paths svcs')) p \<le>
   count_list (concat (map registered_paths svcs)) p"
  unfolding paths_kept_or_removed_def
proof (induction rule: list_all2_induct)
  case Nil
  then show ?case by simp
next
  case (Cons us svcs us' svcs')
  have "count_list (registered_paths us') p \<le> count_list (registered_paths us) p"
  proof (cases "p \<in> set (registered_paths us')")
    case True
    with Cons.hyps(1) show ?thesis by blast
  next
    case False
    then show ?thesis by (simp add: count_list_0_iff)
  qed
  with Cons.IH show ?case by simp
qed

lemma paths_kept_or_removed_no_shared_paths:
  assumes "no_shared_paths svcs" and "paths_kept_or_removed svcs svcs'"
  shows "no_shared_paths svcs'"
  unfolding no_shared_paths_def distinct_count_list
proof
  fix p
  have "count_list (concat (map registered_paths svcs)) p \<le> 1"
    using assms(1) by (simp add: no_shared_paths_def distinct_count_list)
  with paths_kept_or_removed_count [OF assms(2), of p]
  show "count_list (concat (map registered_paths svcs')) p \<le> 1" by simp
qed

lemma paths_kept:
  "map registered_paths svcs' = map registered_paths svcs \<Longrightarrow> paths_kept_or_removed svcs svcs'"
  unfolding paths_kept_or_removed_def
  by (induction svcs arbitrary: svcs') auto

lemma reachable_no_shared_paths: "reachable st \<Longrightarrow> no_shared_paths (usp_services st)"
proof (induction rule: reachable.induct)
  case (init st0)
  show ?case by (rule Init_no_shared_paths)
next
  case (add_service st e eid mtpc err st' evs)
  then show ?case using USP_BROKER_AddUspService_no_shared_paths by blast
next
  case (register st e usp eid mtpc st' evs)
  then show ?case using HandleRegister_no_shared_paths by blast
next
  case (notification st e usp eid mtpc st' evs)
  then show ?case using HandleNotification_paths [OF notification.hyps(2)]
    by (simp add: no_shared_paths_def)
next
  case (response st usp eid b st' evs)
  then show ?case using AttemptPassThruForResponse_paths [OF response.hyps(2)]
    by (simp add: no_shared_paths_def)
next
  case (passthru st e i usp eid mtpc err st' usp' evs)
  then show ?case using PassThruToUspService_paths [OF passthru.hyps(2)]
    by (simp add: no_shared_paths_def)
next
  case (other st st')
  then show ?case using paths_kept_or_removed_no_shared_paths by blast
qed

lemmas validate_defs = ValidateUspServicePath_def strncmp_differs_def DM_ROOT_def
  IS_ALPHA_NUMERIC_def IS_ALPHA_def IS_NUMERIC_def

lemma example_register_facts:
  "header (example_register ps ap) = Some \<lparr>msg_id = Some ''r1'', msg_type = MSG_TYPE_REGISTER\<rparr>"
  "register_of (example_register ps ap) = Some \<lparr>allow_partial = ap, reg_paths = ps\<rparr>"
  by (simp_all add: example_register_def register_of_def)

lemma register_state_owned:
  "owned (usp_services register_state) p \<longleftrightarrow> p = ''Device.Foo.''"
  by (auto simp: owned_def register_state_def service_S1_def service_S2_def)

lemma register_state_no_shared_paths: "no_shared_paths (usp_services register_state)"
  by (simp add: no_shared_paths_def register_state_def service_S1_def service_S2_def)

lemma calc_id:
  assumes c1: "count st + 1 = c" and k: "clock e c = 100"
    and d: "printf_d (sint c) = ds"
  shows "CalcBrokerMessageId e st 64 = (USP_SNPRINTF 64 (''BROKER-'' @ ds @ ''-100''), st\<lparr>count := c\<rparr>)"
proof -
  have b: "unat (100 :: 32 word) = 100" by simp
  have u: "printf_u 100 = ''100''" by (simp add: digit_char_def)
  show ?thesis
    unfolding CalcBrokerMessageId_def Let_def c1 k b u d
    by (simp add: broker_unique_str_def)
qed

lemma init_state:
  "snd (USP_BROKER_Init USP_ERR_OK register_state) =
     \<lparr>usp_services = [unused_slot, unused_slot], count = 1\<rparr>"
  by (simp add: USP_BROKER_Init_def register_state_def unused_slot_def)

lemma printf_small: "printf_d 1 = ''1''" "printf_d 2 = ''2''" "printf_d 3 = ''3''"
  by (simp_all add: printf_d_def digit_char_def)

lemma inform_path:
  "USP_SNPRINTF (MAX_DM_PATH example_env) (DEVICE_SERVICE_ROOT @ ''.'' @ printf_d 1) =
     ''Device.USPServices.USPService.1''"
  "USP_SNPRINTF (MAX_DM_PATH example_env) (DEVICE_SERVICE_ROOT @ ''.'' @ printf_d 2) =
     ''Device.USPServices.USPService.2''"
  by (simp_all add: printf_small USP_SNPRINTF_def DEVICE_SERVICE_ROOT_def example_env_def)

lemma register_unknown:
  assumes find: "FindUspServiceByEndpoint (usp_services st) eid = None"
    and add: "AddUspService e st eid mtpc = Some (st1, evs, Some i)"
    and path: "USP_SNPRINTF (MAX_DM_PATH e)
                 (DEVICE_SERVICE_ROOT @ ''.'' @ printf_d (us_instance (usp_services st1 ! i))) = ip"
    and inform: "inform_instance_result e ip = USP_ERR_OK"
    and il: "i < length (usp_services st1)"
    and nr: "\<not> path_refused e (usp_services st1) p"
    and q: "QueueGetSupportedDMToUspService e
              (st1\<lparr>usp_services := (usp_services st1)
                 [i := (usp_services st1 ! i)
                    \<lparr>registered_paths := registered_paths (usp_services st1 ! i) @ [p]\<rparr>]\<rparr>) i =
            (st2, evs2)"
  shows "USP_BROKER_HandleRegister e st (example_register [p] False) eid mtpc =
     Some (st2,
           evs @ [USP_DM_InformInstance ip,
                  MSG_HANDLER_QueueMessage eid
                    (CreateRegisterResp (Some ''r1'')
                       [\<lparr>requested_path = p, oper_status = OPER_STATUS_OPER_SUCCESS p\<rparr>]) mtpc] @
           evs2)"
proof -
  have nr': "\<forall>x\<in>set [p]. \<not> path_refused e (usp_services st1) x" using nr by simp
  have loop: "register_paths_loop e (Some ''r1'') False i [p] (usp_services st1) [] 0 =
     ((usp_services st1)
        [i := (usp_services st1 ! i)
           \<lparr>registered_paths := registered_paths (usp_services st1 ! i) @ [p]\<rparr>],
      CreateRegisterResp (Some ''r1'')
        [\<lparr>requested_path = p, oper_status = OPER_STATUS_OPER_SUCCESS p\<rparr>], 1)"
    using register_paths_loop_all_accepted [OF il nr', of "Some ''r1''" False "[]" 0] by simp
  have rp: "register_paths e st1 (evs @ [USP_DM_InformInstance ip]) (Some ''r1'')
              \<lparr>allow_partial = False, reg_paths = [p]\<rparr> i eid mtpc =
            (st2, evs @ [USP_DM_InformInstance ip,
                  MSG_HANDLER_QueueMessage eid
                    (CreateRegisterResp (Some ''r1'')
                       [\<lparr>requested_path = p, oper_status = OPER_STATUS_OPER_SUCCESS p\<rparr>]) mtpc] @
                  evs2)"
    unfolding register_paths_def usp_register.select_convs loop
    by (simp add: q Let_def)
  have path': "USP_SNPRINTF (MAX_DM_PATH e)
                 (DEVICE_SERVICE_ROOT @ CHR ''.'' # printf_d (us_instance (usp_services st1 ! i))) = ip"
    using path by simp
  show ?thesis
    by (simp add: USP_BROKER_HandleRegister_def example_register_facts find add path' inform rp
          Let_def)
qed

lemma first_register:
  "USP_BROKER_HandleRegister example_env \<lparr>usp_services = [unused_slot, unused_slot], count = 1\<rparr>
     (example_register [''Device.Foo.''] False) ''S1'' conn_controller =
   Some (first_state,
     [USP_REGISTER_GroupVendorHooks_Dummy 2,
      USP_DM_InformInstance ''Device.USPServices.USPService.1'',
      MSG_HANDLER_QueueMessage ''S1''
        (CreateRegisterResp (Some ''r1'')
           [\<lparr>requested_path = ''Device.Foo.'',
             oper_status = OPER_STATUS_OPER_SUCCESS ''Device.Foo.''\<rparr>])
        conn_controller,
      MSG_HANDLER_QueueMessage ''S1''
        (CreateBroker_GetSupportedDMReq ''BROKER-2-100'' [''Device.Foo.''])
        conn_controller,
      DM_PRIV_AddSchemaPath ''Device.Foo.'' kDMNodeType_Object_SingleInstance,
      Node_SetGroup ''Device.Foo.'' 2 False])"
proof -
  let ?st0 = "\<lparr>usp_services = [unused_slot, unused_slot], count = 1\<rparr>"
  let ?new = "first_service\<lparr>gsdm_msg_id := None, registered_paths := []\<rparr>"
  let ?st1 = "\<lparr>usp_services = [?new, unused_slot], count = 1\<rparr>"
  have find: "FindUspServiceByEndpoint (usp_services ?st0) ''S1'' = None"
    by (simp add: FindUspServiceByEndpoint_def unused_slot_def)
  have add: "AddUspService example_env ?st0 ''S1'' conn_controller =
     Some (?st1, [USP_REGISTER_GroupVendorHooks_Dummy 2], Some 0)"
    by (simp add: AddUspService_def FindUnusedUspService_def unused_slot_def example_env_def
          INVALID_def CalcNextUspServiceInstanceNumber_def zero_service_def zero_mtp_conn_def
          UpdateUspServiceMRT_def conn_controller_def release_if_connected_def set_service_def
          first_service_def DM_EXEC_CopyMTPConnection_def Let_def)
  have path: "USP_SNPRINTF (MAX_DM_PATH example_env)
                 (DEVICE_SERVICE_ROOT @ ''.'' @ printf_d (us_instance (usp_services ?st1 ! 0))) =
              ''Device.USPServices.USPService.1''"
    using inform_path(1) by (simp add: first_service_def)
  have inform: "inform_instance_result example_env ''Device.USPServices.USPService.1'' = USP_ERR_OK"
    by (simp add: example_env_def)
  have nr: "\<not> path_refused example_env (usp_services ?st1) ''Device.Foo.''"
    by (simp add: path_refused_def owned_def first_service_def unused_slot_def zero_service_def
          validate_defs example_env_def)
  have calc: "CalcBrokerMessageId example_env st 64 = (''BROKER-2-100'', st\<lparr>count := 2\<rparr>)"
    if "count st = 1" for st
    using calc_id [of st 2 example_env "''2''"] that
    by (simp add: example_env_def printf_small USP_SNPRINTF_def)
  have m: "MAX_MSG_ID_LEN example_env = 64" "add_schema_path_ok example_env ''Device.Foo.''"
    by (simp_all add: example_env_def)
  have q: "QueueGetSupportedDMToUspService example_env
              (?st1\<lparr>usp_services := (usp_services ?st1)
                 [0 := (usp_services ?st1 ! 0)
                    \<lparr>registered_paths := registered_paths (usp_services ?st1 ! 0) @ [''Device.Foo.'']\<rparr>]\<rparr>) 0 =
            (first_state,
             [MSG_HANDLER_QueueMessage ''S1''
                (CreateBroker_GetSupportedDMReq ''BROKER-2-100'' [''Device.Foo.''])
                conn_controller,
              DM_PRIV_AddSchemaPath ''Device.Foo.'' kDMNodeType_Object_SingleInstance,
              Node_SetGroup ''Device.Foo.'' 2 False])"
    unfolding QueueGetSupportedDMToUspService_def
    by (simp add: m calc Let_def first_service_def)
       (simp add: set_service_def first_state_def first_service_def add_schema_node_def m
          conn_controller_def)
  show ?thesis
    using register_unknown [OF find add path inform _ nr q] by simp
qed


lemma second_register:
  "USP_BROKER_HandleRegister next_group_env first_state
     (example_register [''Device.Foo.Bar.''] False) ''S2'' (conn_controller\<lparr>handle := 4\<rparr>) =
   Some (overlap_state,
     [USP_REGISTER_GroupVendorHooks_Dummy 3,
      USP_DM_InformInstance ''Device.USPServices.USPService.2'',
      MSG_HANDLER_QueueMessage ''S2''
        (CreateRegisterResp (Some ''r1'')
           [\<lparr>requested_path = ''Device.Foo.Bar.'',
             oper_status = OPER_STATUS_OPER_SUCCESS ''Device.Foo.Bar.''\<rparr>])
        (conn_controller\<lparr>handle := 4\<rparr>),
      MSG_HANDLER_QueueMessage ''S2''
        (CreateBroker_GetSupportedDMReq ''BROKER-3-100'' [''Device.Foo.Bar.''])
        (conn_controller\<lparr>handle := 4\<rparr>),
      DM_PRIV_AddSchemaPath ''Device.Foo.Bar.'' kDMNodeType_Object_SingleInstance,
      Node_SetGroup ''Device.Foo.Bar.'' 3 False])"
proof -
  let ?new = "second_service\<lparr>gsdm_msg_id := None, registered_paths := []\<rparr>"
  let ?st1 = "\<lparr>usp_services = [first_service, ?new], count = 2\<rparr>"
  have find: "FindUspServiceByEndpoint (usp_services first_state) ''S2'' = None"
    by (simp add: FindUspServiceByEndpoint_def first_state_def first_service_def unused_slot_def)
  have add: "AddUspService next_group_env first_state ''S2'' (conn_controller\<lparr>handle := 4\<rparr>) =
     Some (?st1, [USP_REGISTER_GroupVendorHooks_Dummy 3], Some 1)"
    by (simp add: AddUspService_def FindUnusedUspService_def unused_slot_def next_group_env_def
          INVALID_def CalcNextUspServiceInstanceNumber_def zero_service_def zero_mtp_conn_def
          UpdateUspServiceMRT_def conn_controller_def release_if_connected_def set_service_def
          first_state_def first_service_def second_service_def DM_EXEC_CopyMTPConnection_def
          Let_def)
  have md: "MAX_DM_PATH next_group_env = MAX_DM_PATH example_env"
    by (simp add: next_group_env_def)
  have path: "USP_SNPRINTF (MAX_DM_PATH next_group_env)
                 (DEVICE_SERVICE_ROOT @ ''.'' @ printf_d (us_instance (usp_services ?st1 ! 1))) =
              ''Device.USPServices.USPService.2''"
    unfolding md using inform_path(2) by (simp add: second_service_def)
  have inform: "inform_instance_result next_group_env ''Device.USPServices.USPService.2'' = USP_ERR_OK"
    by (simp add: next_group_env_def example_env_def)
  have nr: "\<not> path_refused next_group_env (usp_services ?st1) ''Device.Foo.Bar.''"
    by (simp add: path_refused_def owned_def first_service_def second_service_def
          validate_defs next_group_env_def example_env_def)
  have calc: "CalcBrokerMessageId next_group_env st 64 = (''BROKER-3-100'', st\<lparr>count := 3\<rparr>)"
    if "count st = 2" for st
    using calc_id [of st 3 next_group_env "''3''"] that
    by (simp add: next_group_env_def example_env_def printf_small USP_SNPRINTF_def)
  have m: "MAX_MSG_ID_LEN next_group_env = 64" "add_schema_path_ok next_group_env ''Device.Foo.Bar.''"
    by (simp_all add: next_group_env_def example_env_def)
  have q: "QueueGetSupportedDMToUspService next_group_env
              (?st1\<lparr>usp_services := (usp_services ?st1)
                 [1 := (usp_services ?st1 ! 1)
                    \<lparr>registered_paths := registered_paths (usp_services ?st1 ! 1) @ [''Device.Foo.Bar.'']\<rparr>]\<rparr>) 1 =
            (overlap_state,
             [MSG_HANDLER_QueueMessage ''S2''
                (CreateBroker_GetSupportedDMReq ''BROKER-3-100'' [''Device.Foo.Bar.''])
                (conn_controller\<lparr>handle := 4\<rparr>),
              DM_PRIV_AddSchemaPath ''Device.Foo.Bar.'' kDMNodeType_Object_SingleInstance,
              Node_SetGroup ''Device.Foo.Bar.'' 3 False])"
    unfolding QueueGetSupportedDMToUspService_def
    by (simp add: m calc Let_def second_service_def conn_controller_def)
       (simp add: set_service_def overlap_state_def second_service_def add_schema_node_def m
          conn_controller_def)
  show ?thesis
    using register_unknown [OF find add path inform _ nr q] by simp
qed

lemma reachable_overlap_state: "reachable overlap_state"
proof -
  have r0: "reachable \<lparr>usp_services = [unused_slot, unused_slot], count = 1\<rparr>"
    using reachable.init [of register_state] by (simp add: init_state)
  have r1: "reachable first_state"
    using reachable.register [OF r0 first_register] .
  show ?thesis
    using reachable.register [OF r1 second_register] .
qed

text \<open>
  C1, as amended. At every state that the Broker reaches, no path is in the
  \<open>registered_paths\<close> of two Services, nor twice in those of one: ownership is tested
  on the path as a string, so that two Services never own the same path, while one
  Service may own a path below a path of another. \<^verbatim>\<open>RegisterUspServicePath\<close> refuses
  a path with \<open>USP_ERR_PATH_ALREADY_REGISTERED\<close> when a slot of the table (the
  requester's included) already owns it; otherwise with \<open>USP_ERR_REGISTER_FAILURE\<close> when
  the path fails the textual validation; otherwise with
  \<open>USP_ERR_PATH_ALREADY_REGISTERED\<close> when it exists in the schema; and otherwise appends
  it to the \<open>registered_paths\<close> of the requester and of no other Service. So a path
  that is accepted is not in the schema when it is accepted, and the call keeps the
  invariant.
\<close>

theorem RegisterUspServicePath_registry:
  "RegisterUspServicePath e svcs i p =
     (if owned svcs p then (svcs, USP_ERR_PATH_ALREADY_REGISTERED)
      else if ValidateUspServicePath p \<noteq> USP_ERR_OK then (svcs, USP_ERR_REGISTER_FAILURE)
      else if exists_in_schema e p then (svcs, USP_ERR_PATH_ALREADY_REGISTERED)
      else (add_path svcs i p, USP_ERR_OK)) \<and>
   (no_shared_paths svcs \<longrightarrow> no_shared_paths (fst (RegisterUspServicePath e svcs i p))) \<and>
   (reachable st \<longrightarrow> no_shared_paths (usp_services st))"
  using RegisterUspServicePath_cases [of e svcs i p]
        RegisterUspServicePath_no_shared_paths [of svcs e i p]
        reachable_no_shared_paths [of st]
  by (simp add: add_path_def)

theorem RegisterUspServicePath_registry_witness:
  "RegisterUspServicePath example_env (usp_services register_state) 1 ''Device.Bar.'' =
     (add_path (usp_services register_state) 1 ''Device.Bar.'', USP_ERR_OK) \<and>
   no_shared_paths (add_path (usp_services register_state) 1 ''Device.Bar.'') \<and>
   RegisterUspServicePath example_env (usp_services register_state) 1 ''Device.Foo.'' =
     (usp_services register_state, USP_ERR_PATH_ALREADY_REGISTERED) \<and>
   RegisterUspServicePath example_env (usp_services register_state) 1 ''Device.LocalAgent.'' =
     (usp_services register_state, USP_ERR_PATH_ALREADY_REGISTERED) \<and>
   no_shared_paths (usp_services overlap_state)"
proof -
  have v: "ValidateUspServicePath ''Device.Bar.'' = USP_ERR_OK"
    "ValidateUspServicePath ''Device.LocalAgent.'' = USP_ERR_OK"
    by (simp_all add: validate_defs)
  have s: "\<not> exists_in_schema example_env ''Device.Bar.''"
    "exists_in_schema example_env ''Device.LocalAgent.''"
    by (simp_all add: example_env_def)
  have r: "reachable overlap_state"
    by (rule reachable_overlap_state)
  note t1 = RegisterUspServicePath_registry [of example_env "usp_services register_state" 1
      "''Device.Bar.''" overlap_state]
  note t2 = RegisterUspServicePath_registry [of example_env "usp_services register_state" 1
      "''Device.Foo.''" overlap_state]
  note t3 = RegisterUspServicePath_registry [of example_env "usp_services register_state" 1
      "''Device.LocalAgent.''" overlap_state]
  have a: "RegisterUspServicePath example_env (usp_services register_state) 1 ''Device.Bar.'' =
     (add_path (usp_services register_state) 1 ''Device.Bar.'', USP_ERR_OK)"
    using t1 v s by (simp add: register_state_owned)
  have "no_shared_paths (fst (RegisterUspServicePath example_env (usp_services register_state) 1
          ''Device.Bar.''))"
    using t1 register_state_no_shared_paths by blast
  then have b: "no_shared_paths (add_path (usp_services register_state) 1 ''Device.Bar.'')"
    unfolding a by simp
  have c: "RegisterUspServicePath example_env (usp_services register_state) 1 ''Device.Foo.'' =
     (usp_services register_state, USP_ERR_PATH_ALREADY_REGISTERED)"
    using t2 by (simp add: register_state_owned)
  have d: "RegisterUspServicePath example_env (usp_services register_state) 1 ''Device.LocalAgent.'' =
     (usp_services register_state, USP_ERR_PATH_ALREADY_REGISTERED)"
    using t3 v s by (simp add: register_state_owned)
  have f: "no_shared_paths (usp_services overlap_state)"
    using t1 r by blast
  show ?thesis using a b c d f by simp
qed

text \<open>
  C1 as stated fails, in two ways. From the initial state of two slots, \<open>S1\<close> registers
  \<^verbatim>\<open>Device.Foo.\<close> and then \<open>S2\<close> registers \<^verbatim>\<open>Device.Foo.Bar.\<close>, which no Service owns
  and which is not in the schema (the first Register added the node \<^verbatim>\<open>Device.Foo.\<close>
  only): both are accepted, and in the state reached two live Services own overlapping
  paths, the second path lying below the first. And
  \<open>Device.Bar\<close> (no trailing dot) is owned by no Service and is not in the schema, and
  yet it is not added to any \<open>registered_paths\<close>: the call returns
  \<open>USP_ERR_REGISTER_FAILURE\<close>.
\<close>

theorem RegisterUspServicePath_overlap_counterexample:
  "map_option fst
     (USP_BROKER_HandleRegister example_env (snd (USP_BROKER_Init USP_ERR_OK register_state))
        (example_register [''Device.Foo.''] False) ''S1'' conn_controller) = Some first_state \<and>
   map_option fst
     (USP_BROKER_HandleRegister next_group_env first_state
        (example_register [''Device.Foo.Bar.''] False) ''S2'' (conn_controller\<lparr>handle := 4\<rparr>)) =
     Some overlap_state \<and>
   reachable overlap_state \<and>
   us_instance (usp_services overlap_state ! 0) = 1 \<and>
   registered_paths (usp_services overlap_state ! 0) = [''Device.Foo.''] \<and>
   us_instance (usp_services overlap_state ! 1) = 2 \<and>
   registered_paths (usp_services overlap_state ! 1) = [''Device.Foo.Bar.''] \<and>
   ''Device.Foo.Bar.'' = ''Device.Foo.'' @ ''Bar.'' \<and>
   \<not> owned (usp_services register_state) ''Device.Bar'' \<and>
   \<not> exists_in_schema example_env ''Device.Bar'' \<and>
   RegisterUspServicePath example_env (usp_services register_state) 1 ''Device.Bar'' =
     (usp_services register_state, USP_ERR_REGISTER_FAILURE)"
proof -
  have v: "ValidateUspServicePath ''Device.Bar'' = USP_ERR_REGISTER_FAILURE"
    by (simp add: validate_defs)
  have o: "\<not> owned (usp_services register_state) ''Device.Bar''"
    by (simp add: register_state_owned)
  have s: "\<not> exists_in_schema example_env ''Device.Bar''"
    by (simp add: example_env_def)
  have r: "RegisterUspServicePath example_env (usp_services register_state) 1 ''Device.Bar'' =
     (usp_services register_state, USP_ERR_REGISTER_FAILURE)"
    using v o s by (simp add: RegisterUspServicePath_cases)
  have f: "us_instance (usp_services overlap_state ! 0) = 1"
    "registered_paths (usp_services overlap_state ! 0) = [''Device.Foo.'']"
    "us_instance (usp_services overlap_state ! 1) = 2"
    "registered_paths (usp_services overlap_state ! 1) = [''Device.Foo.Bar.'']"
    by (simp_all add: overlap_state_def first_service_def second_service_def)
  show ?thesis
    using first_register second_register reachable_overlap_state o s r f
    by (simp add: init_state)
qed

subsection \<open>A Register without partial registration\<close>

lemma max_instance_loop_ge: "m \<le> max_instance_loop svcs m"
proof (induction svcs arbitrary: m)
  case Nil
  then show ?case by simp
next
  case (Cons us rest)
  have "m \<le> (if us_instance us \<noteq> INVALID \<and> us_instance us > m then us_instance us else m)"
    by simp
  also have "\<dots> \<le> max_instance_loop rest
       (if us_instance us \<noteq> INVALID \<and> us_instance us > m then us_instance us else m)"
    by (rule Cons.IH)
  finally show ?case by simp
qed

lemma CalcNext_live: "CalcNextUspServiceInstanceNumber svcs \<noteq> INVALID"
  using max_instance_loop_ge [of 0 svcs]
  by (simp add: CalcNextUspServiceInstanceNumber_def INVALID_def)

lemma UpdateUspServiceMRT_fresh:
  "UpdateUspServiceMRT us mtpc = Some (us1, evs) \<Longrightarrow>
   protocol (controller_mtp us) = kMtpProtocol_None \<Longrightarrow>
   protocol (agent_mtp us) = kMtpProtocol_None \<Longrightarrow> evs = []"
  by (auto simp: UpdateUspServiceMRT_def release_if_connected_def
           split: if_splits uds_path_t.splits)

lemma AddUspService_NULL:
  "AddUspService e st eid mtpc = Some (st1, evs, None) \<Longrightarrow> st1 = st \<and> evs = []"
  by (auto simp: AddUspService_def Let_def split: option.splits if_splits)

lemma AddUspService_not_terminated:
  assumes "\<not> (protocol mtpc = kMtpProtocol_UDS \<and> uds_path_type mtpc = kUdsPathType_Invalid)"
  shows "AddUspService e st eid mtpc \<noteq> None"
proof -
  have u: "UpdateUspServiceMRT us mtpc \<noteq> None" for us
    using UpdateUspServiceMRT_Some [OF assms, of us] by auto
  show ?thesis
    by (simp add: AddUspService_def Let_def u split: option.split)
qed

lemma AddUspService_slot:
  assumes a: "AddUspService e st eid mtpc = Some (st1, evs, Some i)"
  shows "i < length (usp_services st) \<and> us_instance (usp_services st ! i) = INVALID \<and>
         count st1 = count st \<and>
         evs = [USP_REGISTER_GroupVendorHooks_Dummy (find_unused_group_id e)] \<and>
         (\<exists>us1. usp_services st1 = (usp_services st)[i := us1] \<and>
                registered_paths us1 = [] \<and> endpoint_id us1 = eid \<and>
                us_instance us1 \<noteq> INVALID \<and> group_id us1 = find_unused_group_id e \<and>
                gsdm_msg_id us1 = None)"
proof -
  from a obtain i' where f: "FindUnusedUspService (usp_services st) = Some i'"
    by (auto simp: AddUspService_def Let_def split: option.splits)
  define us where "us = zero_service
                       \<lparr>us_instance := CalcNextUspServiceInstanceNumber ((usp_services st)[i' := zero_service]),
                        endpoint_id := eid,
                        group_id := find_unused_group_id e,
                        has_controller := False,
                        registered_paths := [],
                        subs_map := [],
                        req_map := [],
                        msg_map := [],
                        controller_mtp := zero_mtp_conn\<lparr>protocol := kMtpProtocol_None\<rparr>,
                        agent_mtp := zero_mtp_conn\<lparr>protocol := kMtpProtocol_None\<rparr>\<rparr>"
  from a f obtain us1 evs1 where
    u: "UpdateUspServiceMRT us mtpc = Some (us1, evs1)" and s: "st1 = set_service st i' us1"
    and ev: "evs = USP_REGISTER_GroupVendorHooks_Dummy (find_unused_group_id e) # evs1"
    and ii: "i = i'"
    by (auto simp: AddUspService_def Let_def us_def split: option.splits if_splits)
  from find_first_Some [OF f [unfolded FindUnusedUspService_def]]
  have il: "i' < length (usp_services st)" and inv: "us_instance (usp_services st ! i') = INVALID"
    by auto
  have e1: "evs1 = []"
    using UpdateUspServiceMRT_fresh [OF u] by (simp add: us_def)
  have fr: "registered_paths us1 = [] \<and> endpoint_id us1 = eid \<and> us_instance us1 \<noteq> INVALID \<and>
            group_id us1 = find_unused_group_id e \<and> gsdm_msg_id us1 = None"
    using UpdateUspServiceMRT_frame [OF u] CalcNext_live by (simp add: us_def zero_service_def)
  have "usp_services st1 = (usp_services st)[i := us1]" "count st1 = count st"
    using s ii by (simp_all add: set_service_def)
  then show ?thesis using il inv ii ev e1 fr by blast
qed

lemma find_first_update_new:
  assumes "find_first P xs = None" and "find_first P (xs[i := y]) = Some j"
  shows "j = i"
proof (rule ccontr)
  assume "j \<noteq> i"
  from find_first_Some [OF assms(2)] have "j < length xs" "P ((xs[i := y]) ! j)" by auto
  with \<open>j \<noteq> i\<close> have "P (xs ! j)" "xs ! j \<in> set xs" by auto
  then show False using assms(1) by (auto simp: find_first_None_iff)
qed

lemma owned_live_owned: "owned_live svcs p \<Longrightarrow> owned svcs p"
  by (auto simp: owned_live_def owned_def)

lemma owned_live_update:
  assumes "owned_live svcs p" and "us_instance (svcs ! i) = INVALID"
  shows "owned (svcs[i := us1]) p"
proof -
  from assms(1) obtain s where s: "s \<in> set svcs" "us_instance s \<noteq> INVALID"
    "p \<in> set (registered_paths s)"
    by (auto simp: owned_live_def)
  from s(1) obtain j where j: "j < length svcs" "svcs ! j = s" by (auto simp: in_set_conv_nth)
  with s(2) assms(2) have "j \<noteq> i" by auto
  with j have "(svcs[i := us1]) ! j = s" "j < length (svcs[i := us1])" by auto
  then have "s \<in> set (svcs[i := us1])" by (metis nth_mem)
  with s(3) show ?thesis by (auto simp: owned_def)
qed

lemma register_paths_rejected:
  assumes il: "i < length (usp_services st)"
    and ap: "\<not> allow_partial reg"
    and bad: "(\<exists>p\<in>set (reg_paths reg). path_refused e (usp_services st) p) \<or>
              \<not> distinct (reg_paths reg)"
  shows "\<exists>err. err \<noteq> USP_ERR_OK \<and>
           register_paths e st evs mid reg i eid mtpc =
             (st\<lparr>usp_services := clear_paths (usp_services st) i\<rparr>,
              evs @ [MSG_HANDLER_QueueMessage eid (ERROR_RESP_CreateSingle mid err) mtpc])"
proof -
  from register_paths_loop_all_or_nothing [OF il bad, of mid "[]" 0]
  obtain err where "err \<noteq> USP_ERR_OK"
    "register_paths_loop e mid False i (reg_paths reg) (usp_services st) [] 0 =
       (clear_paths (usp_services st) i, ERROR_RESP_CreateSingle mid err, 0)"
    by blast
  then show ?thesis using ap by (auto simp: register_paths_def)
qed

lemma clear_paths_facts:
  assumes "i < length svcs"
  shows "length (clear_paths svcs i) = length svcs"
    and "registered_paths (clear_paths svcs i ! i) = []"
    and "j \<noteq> i \<Longrightarrow> clear_paths svcs i ! j = svcs ! j"
    and "FindUspServiceByEndpoint (clear_paths svcs i) eid = FindUspServiceByEndpoint svcs eid"
  using assms
  by (simp_all add: clear_paths_def FindUspServiceByEndpoint_def find_first_update_same)

text \<open>
  C2, as amended. For a Register message with \<open>allow_partial = false\<close> in which a path
  fails validation or conflicts (or is given twice), sent over a valid connection by a
  Service that has not registered paths before: the handler queues exactly one message,
  an ERROR (no RegisterResp, no GetSupportedDM request: the only other calls are those
  that add the Service to the table, and no message id is consumed); no path is
  admitted in any slot; and the \<open>registered_paths\<close> of the sender are empty.
\<close>

theorem HandleRegister_all_or_nothing:
  assumes h: "header usp = Some h"
    and r: "register_of usp = Some reg"
    and ap: "\<not> allow_partial reg"
    and bad: "(\<exists>p\<in>set (reg_paths reg). path_conflicts e (usp_services st) p) \<or>
              \<not> distinct (reg_paths reg)"
    and valid: "\<not> (protocol mtpc = kMtpProtocol_UDS \<and> uds_path_type mtpc = kUdsPathType_Invalid)"
    and first: "\<forall>i. FindUspServiceByEndpoint (usp_services st) eid = Some i \<longrightarrow>
                    registered_paths (usp_services st ! i) = []"
  shows "\<exists>st' pre err.
           USP_BROKER_HandleRegister e st usp eid mtpc =
             Some (st', pre @ [MSG_HANDLER_QueueMessage eid
                                 (ERROR_RESP_CreateSingle (msg_id h) err) mtpc]) \<and>
           err \<noteq> USP_ERR_OK \<and>
           (\<forall>ev\<in>set pre. is_service_setup ev) \<and>
           count st' = count st \<and>
           length (usp_services st') = length (usp_services st) \<and>
           (\<forall>j<length (usp_services st).
              set (registered_paths (usp_services st' ! j)) \<subseteq>
              set (registered_paths (usp_services st ! j))) \<and>
           (\<forall>j. FindUspServiceByEndpoint (usp_services st') eid = Some j \<longrightarrow>
                registered_paths (usp_services st' ! j) = [])"
proof -
  have ne: "reg_paths reg \<noteq> []" using bad by auto
  define reply where
    "reply = (\<lambda>err. MSG_HANDLER_QueueMessage eid (ERROR_RESP_CreateSingle (msg_id h) err) mtpc)"
  show ?thesis
  proof (cases "FindUspServiceByEndpoint (usp_services st) eid")
    case (Some i)
    from find_first_Some [OF Some [unfolded FindUspServiceByEndpoint_def]]
    have il: "i < length (usp_services st)" by simp
    have np: "registered_paths (usp_services st ! i) = []" using first Some by simp
    have bad': "(\<exists>p\<in>set (reg_paths reg). path_refused e (usp_services st) p) \<or>
              \<not> distinct (reg_paths reg)"
      using bad owned_live_owned by (auto simp: path_conflicts_def path_refused_def)
    from register_paths_rejected [OF il ap bad', of "[]" "msg_id h" eid mtpc]
    obtain err where err: "err \<noteq> USP_ERR_OK"
      "register_paths e st [] (msg_id h) reg i eid mtpc =
             (st\<lparr>usp_services := clear_paths (usp_services st) i\<rparr>, [] @ [reply err])"
      by (auto simp: reply_def)
    define st' where "st' = st\<lparr>usp_services := clear_paths (usp_services st) i\<rparr>"
    have res: "USP_BROKER_HandleRegister e st usp eid mtpc = Some (st', [] @ [reply err])"
      using h r ne Some np err(2) by (simp add: USP_BROKER_HandleRegister_def st'_def)
    have sub: "\<forall>j<length (usp_services st).
              set (registered_paths (usp_services st' ! j)) \<subseteq>
              set (registered_paths (usp_services st ! j))"
    proof (intro allI impI)
      fix j assume "j < length (usp_services st)"
      show "set (registered_paths (usp_services st' ! j)) \<subseteq>
              set (registered_paths (usp_services st ! j))"
        using clear_paths_facts(2,3) [OF il] by (cases "j = i") (simp_all add: st'_def)
    qed
    have snd: "\<forall>j. FindUspServiceByEndpoint (usp_services st') eid = Some j \<longrightarrow>
                registered_paths (usp_services st' ! j) = []"
      using clear_paths_facts(2,4) [OF il] Some by (simp add: st'_def)
    have "USP_BROKER_HandleRegister e st usp eid mtpc = Some (st', [] @ [reply err]) \<and>
           err \<noteq> USP_ERR_OK \<and> (\<forall>ev\<in>set []. is_service_setup ev) \<and>
           count st' = count st \<and>
           length (usp_services st') = length (usp_services st) \<and>
           (\<forall>j<length (usp_services st).
              set (registered_paths (usp_services st' ! j)) \<subseteq>
              set (registered_paths (usp_services st ! j))) \<and>
           (\<forall>j. FindUspServiceByEndpoint (usp_services st') eid = Some j \<longrightarrow>
                registered_paths (usp_services st' ! j) = [])"
      using res err(1) sub snd clear_paths_facts(1) [OF il] by (simp add: st'_def)
    then show ?thesis unfolding reply_def by blast
  next
    case None
    obtain st1 evs1 ro where a: "AddUspService e st eid mtpc = Some (st1, evs1, ro)"
      using AddUspService_not_terminated [OF valid, of e st eid]
      by (cases "AddUspService e st eid mtpc") auto
    show ?thesis
    proof (cases ro)
      case None
      have "st1 = st" "evs1 = []" using AddUspService_NULL a None by auto
      then have res: "USP_BROKER_HandleRegister e st usp eid mtpc =
                        Some (st, [] @ [reply USP_ERR_REGISTER_FAILURE])"
        using h r ne \<open>FindUspServiceByEndpoint (usp_services st) eid = None\<close> a None
        by (simp add: USP_BROKER_HandleRegister_def reply_def)
      have "USP_BROKER_HandleRegister e st usp eid mtpc =
                        Some (st, [] @ [reply USP_ERR_REGISTER_FAILURE]) \<and>
           USP_ERR_REGISTER_FAILURE \<noteq> USP_ERR_OK \<and> (\<forall>ev\<in>set []. is_service_setup ev) \<and>
           count st = count st \<and>
           length (usp_services st) = length (usp_services st) \<and>
           (\<forall>j<length (usp_services st).
              set (registered_paths (usp_services st ! j)) \<subseteq>
              set (registered_paths (usp_services st ! j))) \<and>
           (\<forall>j. FindUspServiceByEndpoint (usp_services st) eid = Some j \<longrightarrow>
                registered_paths (usp_services st ! j) = [])"
        using res \<open>FindUspServiceByEndpoint (usp_services st) eid = None\<close> by simp
      then show ?thesis unfolding reply_def by blast
    next
      case (Some i)
      from AddUspService_slot [OF a [unfolded Some]]
      obtain us1 where sl: "i < length (usp_services st)"
        "us_instance (usp_services st ! i) = INVALID" "count st1 = count st"
        "evs1 = [USP_REGISTER_GroupVendorHooks_Dummy (find_unused_group_id e)]"
        "usp_services st1 = (usp_services st)[i := us1]"
        "registered_paths us1 = []" "endpoint_id us1 = eid" "us_instance us1 \<noteq> INVALID"
        by blast
      define path where "path = USP_SNPRINTF (MAX_DM_PATH e)
                                        (DEVICE_SERVICE_ROOT @ ''.'' @
                                         printf_d (us_instance (usp_services st1 ! i)))"
      have il1: "i < length (usp_services st1)" using sl(1,5) by simp
      have nth1: "usp_services st1 ! i = us1" using sl(1,5) by simp
      have oth1: "j \<noteq> i \<Longrightarrow> usp_services st1 ! j = usp_services st ! j" for j
        using sl(5) by simp
      have f1: "FindUspServiceByEndpoint (usp_services st1) eid = Some j \<Longrightarrow> j = i" for j
        using find_first_update_new [of _ "usp_services st" i us1 j]
          \<open>FindUspServiceByEndpoint (usp_services st) eid = None\<close> sl(5)
        by (simp add: FindUspServiceByEndpoint_def)
      have sub1: "j < length (usp_services st) \<Longrightarrow>
              set (registered_paths (usp_services st1 ! j)) \<subseteq>
              set (registered_paths (usp_services st ! j))" for j
        using nth1 oth1 sl(6) by (cases "j = i") simp_all
      show ?thesis
      proof (cases "inform_instance_result e path \<noteq> USP_ERR_OK")
        case True
        have res: "USP_BROKER_HandleRegister e st usp eid mtpc =
                Some (st1, (evs1 @ [USP_DM_InformInstance path]) @ [reply USP_ERR_REGISTER_FAILURE])"
          using h r ne \<open>FindUspServiceByEndpoint (usp_services st) eid = None\<close> a Some True
          by (simp add: USP_BROKER_HandleRegister_def reply_def path_def Let_def)
        have "USP_BROKER_HandleRegister e st usp eid mtpc =
                Some (st1, (evs1 @ [USP_DM_InformInstance path]) @ [reply USP_ERR_REGISTER_FAILURE]) \<and>
           USP_ERR_REGISTER_FAILURE \<noteq> USP_ERR_OK \<and>
           (\<forall>ev\<in>set (evs1 @ [USP_DM_InformInstance path]). is_service_setup ev) \<and>
           count st1 = count st \<and>
           length (usp_services st1) = length (usp_services st) \<and>
           (\<forall>j<length (usp_services st).
              set (registered_paths (usp_services st1 ! j)) \<subseteq>
              set (registered_paths (usp_services st ! j))) \<and>
           (\<forall>j. FindUspServiceByEndpoint (usp_services st1) eid = Some j \<longrightarrow>
                registered_paths (usp_services st1 ! j) = [])"
          using res sl(3,4,5,6) sub1 f1 nth1 by (auto simp: is_service_setup_def)
        then show ?thesis unfolding reply_def by blast
      next
        case False
        have bad': "(\<exists>p\<in>set (reg_paths reg). path_refused e (usp_services st1) p) \<or>
              \<not> distinct (reg_paths reg)"
          using bad owned_live_update [OF _ sl(2), of _ us1] sl(5)
          by (auto simp: path_conflicts_def path_refused_def)
        from register_paths_rejected [OF il1 ap bad', of "evs1 @ [USP_DM_InformInstance path]"
            "msg_id h" eid mtpc]
        obtain err where err: "err \<noteq> USP_ERR_OK"
          "register_paths e st1 (evs1 @ [USP_DM_InformInstance path]) (msg_id h) reg i eid mtpc =
             (st1\<lparr>usp_services := clear_paths (usp_services st1) i\<rparr>,
              (evs1 @ [USP_DM_InformInstance path]) @ [reply err])"
          by (auto simp: reply_def)
        define st' where "st' = st1\<lparr>usp_services := clear_paths (usp_services st1) i\<rparr>"
        have res: "USP_BROKER_HandleRegister e st usp eid mtpc =
                Some (st', (evs1 @ [USP_DM_InformInstance path]) @ [reply err])"
          using h r ne \<open>FindUspServiceByEndpoint (usp_services st) eid = None\<close> a Some False err(2)
          by (simp add: USP_BROKER_HandleRegister_def path_def Let_def st'_def)
        have sub: "\<forall>j<length (usp_services st).
              set (registered_paths (usp_services st' ! j)) \<subseteq>
              set (registered_paths (usp_services st ! j))"
        proof (intro allI impI)
          fix j assume jl: "j < length (usp_services st)"
          show "set (registered_paths (usp_services st' ! j)) \<subseteq>
              set (registered_paths (usp_services st ! j))"
            using clear_paths_facts(2,3) [OF il1] sub1 [OF jl]
            by (cases "j = i") (simp_all add: st'_def)
        qed
        have snd: "\<forall>j. FindUspServiceByEndpoint (usp_services st') eid = Some j \<longrightarrow>
                registered_paths (usp_services st' ! j) = []"
          using clear_paths_facts(2,4) [OF il1] f1 by (auto simp: st'_def)
        have "USP_BROKER_HandleRegister e st usp eid mtpc =
                Some (st', (evs1 @ [USP_DM_InformInstance path]) @ [reply err]) \<and>
           err \<noteq> USP_ERR_OK \<and>
           (\<forall>ev\<in>set (evs1 @ [USP_DM_InformInstance path]). is_service_setup ev) \<and>
           count st' = count st \<and>
           length (usp_services st') = length (usp_services st) \<and>
           (\<forall>j<length (usp_services st).
              set (registered_paths (usp_services st' ! j)) \<subseteq>
              set (registered_paths (usp_services st ! j))) \<and>
           (\<forall>j. FindUspServiceByEndpoint (usp_services st') eid = Some j \<longrightarrow>
                registered_paths (usp_services st' ! j) = [])"
          using res err(1) sub snd sl(3,4,5) clear_paths_facts(1) [OF il1]
          by (auto simp: st'_def is_service_setup_def)
        then show ?thesis unfolding reply_def by blast
      qed
    qed
  qed
qed

lemma find_S2: "FindUspServiceByEndpoint (usp_services register_state) ''S2'' = Some 1"
  by (simp add: FindUspServiceByEndpoint_def register_state_def service_S1_def service_S2_def
        INVALID_def)

lemma find_S1_register: "FindUspServiceByEndpoint (usp_services register_state) ''S1'' = Some 0"
  by (simp add: FindUspServiceByEndpoint_def register_state_def service_S1_def INVALID_def)


theorem HandleRegister_all_or_nothing_witness:
  "USP_BROKER_HandleRegister example_env register_state
     (example_register [''Device.Bar.'', ''Device.Foo.''] False) ''S2'' conn_controller =
     Some (register_state,
           [MSG_HANDLER_QueueMessage ''S2''
              (ERROR_RESP_CreateSingle (Some ''r1'') USP_ERR_PATH_ALREADY_REGISTERED)
              conn_controller]) \<and>
   registered_paths (usp_services register_state ! 1) = []"
proof -
  define usp where "usp = example_register [''Device.Bar.'', ''Device.Foo.''] False"
  define reg where "reg = \<lparr>allow_partial = False, reg_paths = [''Device.Bar.'', ''Device.Foo.'']\<rparr>"
  define h where "h = \<lparr>msg_id = Some ''r1'', msg_type = MSG_TYPE_REGISTER\<rparr>"
  have hh: "header usp = Some h" and rr: "register_of usp = Some reg"
    by (simp_all add: usp_def h_def reg_def example_register_facts)
  have ap: "\<not> allow_partial reg" by (simp add: reg_def)
  have bad: "(\<exists>p\<in>set (reg_paths reg). path_conflicts example_env (usp_services register_state) p) \<or>
              \<not> distinct (reg_paths reg)"
    by (simp add: reg_def path_conflicts_def owned_live_def register_state_def service_S1_def
          INVALID_def)
  have valid: "\<not> (protocol conn_controller = kMtpProtocol_UDS \<and>
                   uds_path_type conn_controller = kUdsPathType_Invalid)"
    by (simp add: conn_controller_def)
  have p2: "registered_paths (usp_services register_state ! 1) = []"
    by (simp add: register_state_def service_S2_def)
  have first: "\<forall>i. FindUspServiceByEndpoint (usp_services register_state) ''S2'' = Some i \<longrightarrow>
                    registered_paths (usp_services register_state ! i) = []"
    using find_S2 p2 by simp
  from HandleRegister_all_or_nothing [OF hh rr ap bad valid first]
  obtain st' pre err where t:
    "USP_BROKER_HandleRegister example_env register_state usp ''S2'' conn_controller =
       Some (st', pre @ [MSG_HANDLER_QueueMessage ''S2''
                           (ERROR_RESP_CreateSingle (msg_id h) err) conn_controller])"
    "err \<noteq> USP_ERR_OK"
    by blast
  have r1: "RegisterUspServicePath example_env (usp_services register_state) 1 ''Device.Bar.'' =
          (add_path (usp_services register_state) 1 ''Device.Bar.'', USP_ERR_OK)"
    by (simp add: RegisterUspServicePath_cases register_state_owned validate_defs example_env_def
          add_path_def)
  have o2: "owned (add_path (usp_services register_state) 1 ''Device.Bar.'') ''Device.Foo.''"
  proof -
    have "(1::nat) < length (usp_services register_state)" by (simp add: register_state_def)
    from owned_add_path [OF this, of "''Device.Bar.''" "''Device.Foo.''"]
    show ?thesis by (simp add: register_state_owned)
  qed
  have r2: "RegisterUspServicePath example_env
             (add_path (usp_services register_state) 1 ''Device.Bar.'') 1 ''Device.Foo.'' =
          (add_path (usp_services register_state) 1 ''Device.Bar.'', USP_ERR_PATH_ALREADY_REGISTERED)"
    using o2 by (simp add: RegisterUspServicePath_cases)
  have cl: "(add_path (usp_services register_state) 1 ''Device.Bar.'')
              [1 := (add_path (usp_services register_state) 1 ''Device.Bar.'' ! 1)
                      \<lparr>registered_paths := []\<rparr>] = usp_services register_state"
    by (simp add: add_path_def register_state_def service_S2_def)
  have loop: "register_paths_loop example_env (Some ''r1'') False 1
                 [''Device.Bar.'', ''Device.Foo.''] (usp_services register_state) [] 0 =
               (usp_services register_state,
                ERROR_RESP_CreateSingle (Some ''r1'') USP_ERR_PATH_ALREADY_REGISTERED, 0)"
    using r1 r2 cl by (simp add: STR_VECTOR_Destroy_def)
  have ev: "USP_BROKER_HandleRegister example_env register_state usp ''S2'' conn_controller =
     Some (register_state,
           [MSG_HANDLER_QueueMessage ''S2''
              (ERROR_RESP_CreateSingle (Some ''r1'') USP_ERR_PATH_ALREADY_REGISTERED)
              conn_controller])"
    using find_S2 p2 loop hh rr
    by (simp add: USP_BROKER_HandleRegister_def register_paths_def h_def reg_def)
  show ?thesis using ev t p2 unfolding usp_def by simp
qed

text \<open>
  C2 as stated fails for a Service that has registered before: \<open>S1\<close> owns \<open>Device.Foo.\<close>
  and sends a Register with \<open>allow_partial = false\<close> for \<open>Device.Foo.\<close>, which
  conflicts. The handler replies with a single ERROR and admits nothing, but the
  \<open>registered_paths\<close> of \<open>S1\<close> are not left empty: they are what they were.
\<close>

theorem HandleRegister_second_register_counterexample:
  "path_conflicts example_env (usp_services register_state) ''Device.Foo.'' \<and>
   USP_BROKER_HandleRegister example_env register_state
     (example_register [''Device.Foo.''] False) ''S1'' conn_controller =
     Some (register_state,
           [MSG_HANDLER_QueueMessage ''S1''
              (ERROR_RESP_CreateSingle (Some ''r1'') USP_ERR_REGISTER_FAILURE) conn_controller]) \<and>
   FindUspServiceByEndpoint (usp_services register_state) ''S1'' = Some 0 \<and>
   registered_paths (usp_services register_state ! 0) = [''Device.Foo.'']"
proof -
  have a: "path_conflicts example_env (usp_services register_state) ''Device.Foo.''"
    by (simp add: path_conflicts_def owned_live_def register_state_def service_S1_def INVALID_def)
  have p: "registered_paths (usp_services register_state ! 0) = [''Device.Foo.'']"
    by (simp add: register_state_def service_S1_def)
  have b: "USP_BROKER_HandleRegister example_env register_state
     (example_register [''Device.Foo.''] False) ''S1'' conn_controller =
     Some (register_state,
           [MSG_HANDLER_QueueMessage ''S1''
              (ERROR_RESP_CreateSingle (Some ''r1'') USP_ERR_REGISTER_FAILURE) conn_controller])"
    using find_S1_register p
    by (simp add: USP_BROKER_HandleRegister_def example_register_facts)
  show ?thesis using a b p find_S1_register by simp
qed

subsection \<open>Order of the calls made for a Register\<close>

lemma register_paths_accepted:
  assumes il: "i < length (usp_services st)"
    and np: "registered_paths (usp_services st ! i) = []"
    and res: "register_paths e st evs0 mid reg i eid mtpc = (st', evs)"
    and acc: "registered_paths (usp_services st' ! i) \<noteq> []"
    and conn: "protocol (controller_mtp (usp_services st' ! i)) \<noteq> kMtpProtocol_None"
  shows "\<exists>rs gid.
           evs = evs0 @ register_events_spec e eid mtpc mid rs gid (usp_services st' ! i) \<and>
           map requested_path rs = reg_paths reg \<and>
           registered_paths (usp_services st' ! i) = map requested_path (filter is_success rs) \<and>
           gsdm_msg_id (usp_services st' ! i) = Some gid \<and>
           group_id (usp_services st' ! i) = group_id (usp_services st ! i) \<and>
           endpoint_id (usp_services st' ! i) = endpoint_id (usp_services st ! i)"
proof -
  define svcs where "svcs = usp_services st"
  obtain svcs1 resp cnt where l:
    "register_paths_loop e mid (allow_partial reg) i (reg_paths reg) svcs [] 0 = (svcs1, resp, cnt)"
    by (cases "register_paths_loop e mid (allow_partial reg) i (reg_paths reg) svcs [] 0") auto
  from register_paths_loop_shape [OF il [folded svcs_def] l]
  obtain X where X: "svcs1 = svcs[i := (svcs ! i)\<lparr>registered_paths := X\<rparr>]"
    and alt: "(registered_paths (svcs1 ! i) = [] \<and> cnt = 0 \<and>
           (\<exists>err. err \<noteq> USP_ERR_OK \<and> resp = ERROR_RESP_CreateSingle mid err)) \<or>
          (cnt = 0 + length (reg_paths reg) \<and>
           (\<exists>rs. map requested_path rs = reg_paths reg \<and> resp = CreateRegisterResp mid ([] @ rs) \<and>
                 registered_paths (svcs1 ! i) =
                   registered_paths (svcs ! i) @
                   map requested_path (filter (\<lambda>r. oper_status r = OPER_STATUS_OPER_SUCCESS (requested_path r)) rs)))"
    by blast
  have il1: "i < length svcs1" using X il by (simp add: svcs_def)
  have nth1: "svcs1 ! i = (svcs ! i)\<lparr>registered_paths := X\<rparr>"
    using X il by (simp add: svcs_def)
  define st1 where "st1 = st\<lparr>usp_services := svcs1\<rparr>"
  obtain st2 evs2 where q: "QueueGetSupportedDMToUspService e st1 i = (st2, evs2)"
    by (cases "QueueGetSupportedDMToUspService e st1 i") auto
  have res': "(st', evs) = (if cnt > 0 then (st2, (evs0 @ [MSG_HANDLER_QueueMessage eid resp mtpc]) @ evs2)
                           else (st1, evs0 @ [MSG_HANDLER_QueueMessage eid resp mtpc]))"
    using res l q by (auto simp: register_paths_def svcs_def st1_def Let_def)
  have paths': "registered_paths (usp_services st' ! i) = registered_paths (svcs1 ! i)"
  proof (cases "cnt > 0")
    case True
    then have "st' = st2" using res' by simp
    moreover have "map registered_paths (usp_services st2) ! i = map registered_paths (usp_services st1) ! i"
      using QueueGetSupportedDM_paths [OF q] by simp
    moreover have "length (usp_services st2) = length (usp_services st1)"
      using QueueGetSupportedDM_paths [OF q] by (metis length_map)
    ultimately show ?thesis using il1 by (simp add: st1_def)
  next
    case False
    then show ?thesis using res' by (simp add: st1_def)
  qed
  have iss: "(\<lambda>r. oper_status r = OPER_STATUS_OPER_SUCCESS (requested_path r)) = is_success"
    by (simp add: fun_eq_iff is_success_def)
  from alt [unfolded iss] acc paths' obtain rs where rs: "cnt = length (reg_paths reg)"
    "map requested_path rs = reg_paths reg" "resp = CreateRegisterResp mid rs"
    "registered_paths (svcs1 ! i) = map requested_path (filter is_success rs)"
    using np by (auto simp: svcs_def)
  have "rs \<noteq> []" using rs(4) acc paths' by auto
  then have pos: "cnt > 0" using rs(1,2) by (metis length_greater_0_conv length_map)
  have st'2: "st' = st2" and evs2: "evs = evs0 @ [MSG_HANDLER_QueueMessage eid resp mtpc] @ evs2"
    using res' pos by simp_all
  have ne1: "registered_paths (usp_services st1 ! i) \<noteq> []"
    using acc paths' by (simp add: st1_def)
  obtain gid stc where c: "CalcBrokerMessageId e st1 (MAX_MSG_ID_LEN e) = (gid, stc)"
    by (cases "CalcBrokerMessageId e st1 (MAX_MSG_ID_LEN e)") auto
  have sc: "usp_services stc = svcs1"
    using CalcBrokerMessageId_services [OF c] by (simp add: st1_def)
  define us1 where "us1 = (svcs1 ! i)\<lparr>gsdm_msg_id := Some gid\<rparr>"
  show ?thesis
  proof (cases "protocol (controller_mtp (usp_services st1 ! i)) = kMtpProtocol_None")
    case True
    then have "st2 = st1" using q ne1 by (simp add: QueueGetSupportedDMToUspService_def Let_def)
    then show ?thesis using conn True st'2 by simp
  next
    case False
    have q': "st2 = set_service stc i us1"
      "evs2 = MSG_HANDLER_QueueMessage (endpoint_id us1)
                 (CreateBroker_GetSupportedDMReq gid (registered_paths us1)) (controller_mtp us1) #
              concat (map (add_schema_node e (group_id us1)) (registered_paths us1))"
      using q ne1 False c
      by (simp_all add: QueueGetSupportedDMToUspService_def Let_def us1_def st1_def)
    have nth': "usp_services st' ! i = us1"
      using st'2 q'(1) sc il1 by (simp add: set_service_def)
    have "evs = evs0 @ register_events_spec e eid mtpc mid rs gid us1"
      using evs2 q'(2) rs(3) by (simp add: register_events_spec_def)
    moreover have "registered_paths us1 = map requested_path (filter is_success rs)"
      using rs(4) by (simp add: us1_def)
    moreover have "gsdm_msg_id us1 = Some gid" by (simp add: us1_def)
    moreover have "group_id us1 = group_id (usp_services st ! i)"
      "endpoint_id us1 = endpoint_id (usp_services st ! i)"
      using nth1 by (simp_all add: us1_def svcs_def)
    ultimately show ?thesis using rs(2) nth' by auto
  qed
qed

lemma register_paths_frame:
  assumes il: "i < length (usp_services st)"
    and res: "register_paths e st evs0 mid reg i eid mtpc = (st', evs)"
  shows "\<exists>us'. usp_services st' = (usp_services st)[i := us'] \<and>
               us_instance us' = us_instance (usp_services st ! i) \<and>
               endpoint_id us' = endpoint_id (usp_services st ! i)"
proof -
  define svcs where "svcs = usp_services st"
  obtain svcs1 resp cnt where l:
    "register_paths_loop e mid (allow_partial reg) i (reg_paths reg) svcs [] 0 = (svcs1, resp, cnt)"
    by (cases "register_paths_loop e mid (allow_partial reg) i (reg_paths reg) svcs [] 0") auto
  from register_paths_loop_shape [OF il [folded svcs_def] l]
  obtain X where X: "svcs1 = svcs[i := (svcs ! i)\<lparr>registered_paths := X\<rparr>]"
    by blast
  have nth1: "svcs1 ! i = (svcs ! i)\<lparr>registered_paths := X\<rparr>"
    using X il by (simp add: svcs_def)
  define st1 where "st1 = st\<lparr>usp_services := svcs1\<rparr>"
  obtain st2 evs2 where q: "QueueGetSupportedDMToUspService e st1 i = (st2, evs2)"
    by (cases "QueueGetSupportedDMToUspService e st1 i") auto
  obtain gid stc where c: "CalcBrokerMessageId e st1 (MAX_MSG_ID_LEN e) = (gid, stc)"
    by (cases "CalcBrokerMessageId e st1 (MAX_MSG_ID_LEN e)") auto
  have sc: "usp_services stc = svcs1"
    using CalcBrokerMessageId_services [OF c] by (simp add: st1_def)
  have "st2 = st1 \<or> st2 = set_service stc i ((svcs1 ! i)\<lparr>gsdm_msg_id := Some gid\<rparr>)"
    using q c by (auto simp: QueueGetSupportedDMToUspService_def Let_def st1_def split: if_splits)
  moreover have "st' = st1 \<or> st' = st2"
    using res l q by (auto simp: register_paths_def svcs_def st1_def Let_def split: if_splits)
  ultimately consider "usp_services st' = svcs[i := (svcs ! i)\<lparr>registered_paths := X\<rparr>]"
    | "usp_services st' = svcs[i := (svcs ! i)\<lparr>registered_paths := X, gsdm_msg_id := Some gid\<rparr>]"
    using X sc nth1 by (auto simp: st1_def set_service_def)
  then show ?thesis
  proof cases
    case 1
    then show ?thesis unfolding svcs_def
      by (intro exI [of _ "(usp_services st ! i)\<lparr>registered_paths := X\<rparr>"]) simp
  next
    case 2
    then show ?thesis unfolding svcs_def
      by (intro exI [of _ "(usp_services st ! i)\<lparr>registered_paths := X, gsdm_msg_id := Some gid\<rparr>"]) simp
  qed
qed

lemma register_paths_find:
  assumes il: "i < length (usp_services st)"
    and res: "register_paths e st evs0 mid reg i eid mtpc = (st', evs)"
  shows "FindUspServiceByEndpoint (usp_services st') eid' =
         FindUspServiceByEndpoint (usp_services st) eid'"
proof -
  from register_paths_frame [OF il res] obtain us' where
    "usp_services st' = (usp_services st)[i := us']"
    "us_instance us' = us_instance (usp_services st ! i)"
    "endpoint_id us' = endpoint_id (usp_services st ! i)"
    by blast
  then show ?thesis using il
    by (simp add: FindUspServiceByEndpoint_def find_first_update_same)
qed

text \<open>
  C7, as amended: for every Register message (with a header and a Register body, on a
  connection with a valid path type) from a Service that has not registered paths before,
  the handler returns, and if the Service ends up with at least one accepted path and its
  controller-direction connection is up, the calls it makes end with: the RegisterResp
  queued to the sender (one result per requested path, in order), then the GetSupportedDM
  request for the accepted paths queued to the Service, its message id stored in
  \<^verbatim>\<open>gsdm_msg_id\<close>, and only then, for each accepted path in order, the provisional
  single-instance object node added to the schema and given the Service's group id.
  Before them only the calls that set up a Service unknown so far are made.
\<close>

theorem HandleRegister_order:
  assumes h: "header usp = Some h"
    and r: "register_of usp = Some reg"
    and valid: "\<not> (protocol mtpc = kMtpProtocol_UDS \<and> uds_path_type mtpc = kUdsPathType_Invalid)"
    and first: "\<forall>i. FindUspServiceByEndpoint (usp_services st) eid = Some i \<longrightarrow>
                    registered_paths (usp_services st ! i) = []"
  shows "\<exists>st' evs.
           USP_BROKER_HandleRegister e st usp eid mtpc = Some (st', evs) \<and>
           (\<forall>i. FindUspServiceByEndpoint (usp_services st') eid = Some i \<and>
                registered_paths (usp_services st' ! i) \<noteq> [] \<and>
                protocol (controller_mtp (usp_services st' ! i)) \<noteq> kMtpProtocol_None \<longrightarrow>
                (\<exists>pre rs gid.
                   evs = pre @ register_events_spec e eid mtpc (msg_id h) rs gid
                                 (usp_services st' ! i) \<and>
                   (\<forall>ev\<in>set pre. is_service_setup ev) \<and>
                   map requested_path rs = reg_paths reg \<and>
                   registered_paths (usp_services st' ! i) =
                     map requested_path (filter is_success rs) \<and>
                   gsdm_msg_id (usp_services st' ! i) = Some gid \<and>
                   endpoint_id (usp_services st' ! i) = eid))"
proof -
  define reply where
    "reply = (\<lambda>err. MSG_HANDLER_QueueMessage eid (ERROR_RESP_CreateSingle (msg_id h) err) mtpc)"
  have fin: "\<exists>pre rs gid.
                   evs = pre @ register_events_spec e eid mtpc (msg_id h) rs gid
                                 (usp_services st' ! i) \<and>
                   (\<forall>ev\<in>set pre. is_service_setup ev) \<and>
                   map requested_path rs = reg_paths reg \<and>
                   registered_paths (usp_services st' ! i) =
                     map requested_path (filter is_success rs) \<and>
                   gsdm_msg_id (usp_services st' ! i) = Some gid \<and>
                   endpoint_id (usp_services st' ! i) = eid"
    if il: "i < length (usp_services s)"
      and np: "registered_paths (usp_services s ! i) = []"
      and res: "register_paths e s evs0 (msg_id h) reg i eid mtpc = (st', evs)"
      and acc: "registered_paths (usp_services st' ! i) \<noteq> []"
      and conn: "protocol (controller_mtp (usp_services st' ! i)) \<noteq> kMtpProtocol_None"
      and pre_ok: "\<forall>ev\<in>set evs0. is_service_setup ev"
      and ep: "endpoint_id (usp_services s ! i) = eid"
    for s i st' evs evs0
  proof -
    from register_paths_accepted [OF il np res acc conn]
    obtain rs gid where
      "evs = evs0 @ register_events_spec e eid mtpc (msg_id h) rs gid (usp_services st' ! i)"
      "map requested_path rs = reg_paths reg"
      "registered_paths (usp_services st' ! i) = map requested_path (filter is_success rs)"
      "gsdm_msg_id (usp_services st' ! i) = Some gid"
      "endpoint_id (usp_services st' ! i) = endpoint_id (usp_services s ! i)"
      by blast
    then show ?thesis using pre_ok ep by auto
  qed
  show ?thesis
  proof (cases "reg_paths reg = []")
    case True
    have "USP_BROKER_HandleRegister e st usp eid mtpc = Some (st, [reply USP_ERR_REGISTER_FAILURE])"
      using h r True by (simp add: USP_BROKER_HandleRegister_def reply_def)
    then show ?thesis using first by auto
  next
    case ne: False
    show ?thesis
    proof (cases "FindUspServiceByEndpoint (usp_services st) eid")
      case (Some i0)
      from find_first_Some [OF Some [unfolded FindUspServiceByEndpoint_def]]
      have il: "i0 < length (usp_services st)" and ep: "endpoint_id (usp_services st ! i0) = eid"
        by auto
      have np: "registered_paths (usp_services st ! i0) = []" using first Some by simp
      obtain st' evs where rp: "register_paths e st [] (msg_id h) reg i0 eid mtpc = (st', evs)"
        by (cases "register_paths e st [] (msg_id h) reg i0 eid mtpc") auto
      have res: "USP_BROKER_HandleRegister e st usp eid mtpc = Some (st', evs)"
        using h r ne Some np rp by (simp add: USP_BROKER_HandleRegister_def)
      have same: "FindUspServiceByEndpoint (usp_services st') eid = Some i0"
        using register_paths_find [OF il rp] Some by simp
      have "\<exists>pre rs gid.
                   evs = pre @ register_events_spec e eid mtpc (msg_id h) rs gid
                                 (usp_services st' ! i) \<and>
                   (\<forall>ev\<in>set pre. is_service_setup ev) \<and>
                   map requested_path rs = reg_paths reg \<and>
                   registered_paths (usp_services st' ! i) =
                     map requested_path (filter is_success rs) \<and>
                   gsdm_msg_id (usp_services st' ! i) = Some gid \<and>
                   endpoint_id (usp_services st' ! i) = eid"
        if "FindUspServiceByEndpoint (usp_services st') eid = Some i"
          "registered_paths (usp_services st' ! i) \<noteq> []"
          "protocol (controller_mtp (usp_services st' ! i)) \<noteq> kMtpProtocol_None" for i
      proof -
        have "i = i0" using that(1) same by simp
        then show ?thesis using fin [OF il np rp _ _ _ ep] that(2,3) by simp
      qed
      then show ?thesis using res by blast
    next
      case None
      obtain st1 evs1 ro where a: "AddUspService e st eid mtpc = Some (st1, evs1, ro)"
        using AddUspService_not_terminated [OF valid, of e st eid]
        by (cases "AddUspService e st eid mtpc") auto
      show ?thesis
      proof (cases ro)
        case nul: None
        have "st1 = st" "evs1 = []" using AddUspService_NULL a nul by auto
        then have "USP_BROKER_HandleRegister e st usp eid mtpc =
                        Some (st, [reply USP_ERR_REGISTER_FAILURE])"
          using h r ne None a nul by (simp add: USP_BROKER_HandleRegister_def reply_def)
        then show ?thesis using None by auto
      next
        case (Some i0)
        from AddUspService_slot [OF a [unfolded Some]]
        obtain us1 where sl: "i0 < length (usp_services st)"
          "evs1 = [USP_REGISTER_GroupVendorHooks_Dummy (find_unused_group_id e)]"
          "usp_services st1 = (usp_services st)[i0 := us1]"
          "registered_paths us1 = []" "endpoint_id us1 = eid"
          by blast
        define path where "path = USP_SNPRINTF (MAX_DM_PATH e)
                                        (DEVICE_SERVICE_ROOT @ ''.'' @
                                         printf_d (us_instance (usp_services st1 ! i0)))"
        have il1: "i0 < length (usp_services st1)" using sl(1,3) by simp
        have nth1: "usp_services st1 ! i0 = us1" using sl(1,3) by simp
        have f1: "FindUspServiceByEndpoint (usp_services st1) eid = Some j \<Longrightarrow> j = i0" for j
          using find_first_update_new [of _ "usp_services st" i0 us1 j] None sl(3)
          by (simp add: FindUspServiceByEndpoint_def)
        show ?thesis
        proof (cases "inform_instance_result e path \<noteq> USP_ERR_OK")
          case True
          have "USP_BROKER_HandleRegister e st usp eid mtpc =
                Some (st1, evs1 @ [USP_DM_InformInstance path, reply USP_ERR_REGISTER_FAILURE])"
            using h r ne None a Some True
            by (simp add: USP_BROKER_HandleRegister_def reply_def path_def Let_def)
          then show ?thesis using f1 nth1 sl(4) by auto
        next
          case False
          obtain st' evs where rp:
            "register_paths e st1 (evs1 @ [USP_DM_InformInstance path]) (msg_id h) reg i0 eid mtpc
               = (st', evs)"
            by (cases "register_paths e st1 (evs1 @ [USP_DM_InformInstance path]) (msg_id h) reg
                         i0 eid mtpc") auto
          have res: "USP_BROKER_HandleRegister e st usp eid mtpc = Some (st', evs)"
            using h r ne None a Some False rp
            by (simp add: USP_BROKER_HandleRegister_def path_def Let_def)
          have pre_ok: "\<forall>ev\<in>set (evs1 @ [USP_DM_InformInstance path]). is_service_setup ev"
            using sl(2) by (simp add: is_service_setup_def)
          have np: "registered_paths (usp_services st1 ! i0) = []" using nth1 sl(4) by simp
          have ep: "endpoint_id (usp_services st1 ! i0) = eid" using nth1 sl(5) by simp
          have "\<exists>pre rs gid.
                   evs = pre @ register_events_spec e eid mtpc (msg_id h) rs gid
                                 (usp_services st' ! i) \<and>
                   (\<forall>ev\<in>set pre. is_service_setup ev) \<and>
                   map requested_path rs = reg_paths reg \<and>
                   registered_paths (usp_services st' ! i) =
                     map requested_path (filter is_success rs) \<and>
                   gsdm_msg_id (usp_services st' ! i) = Some gid \<and>
                   endpoint_id (usp_services st' ! i) = eid"
            if "FindUspServiceByEndpoint (usp_services st') eid = Some i"
              "registered_paths (usp_services st' ! i) \<noteq> []"
              "protocol (controller_mtp (usp_services st' ! i)) \<noteq> kMtpProtocol_None" for i
          proof -
            have "FindUspServiceByEndpoint (usp_services st1) eid = Some i"
              using register_paths_find [OF il1 rp] that(1) by simp
            then have "i = i0" using f1 by simp
            then show ?thesis using fin [OF il1 np rp _ _ pre_ok ep] that(2,3) by simp
          qed
          then show ?thesis using res by blast
        qed
      qed
    qed
  qed
qed

lemma calc_example:
  assumes c1: "count st = 1"
  shows "CalcBrokerMessageId example_env st 64 = (''BROKER-2-100'', st\<lparr>count := 2\<rparr>)"
proof -
  have a: "sint (2 :: 32 word) = 2" by simp
  have b: "unat (100 :: 32 word) = 100" by simp
  have c: "printf_d 2 = ''2''" by (simp add: printf_d_def digit_char_def)
  have d: "printf_u 100 = ''100''" by (simp add: digit_char_def)
  have k: "clock example_env x = 100" for x by (simp add: example_env_def)
  have s: "USP_SNPRINTF 64 (broker_unique_str @ ''-'' @ ''2'' @ ''-'' @ ''100'') = ''BROKER-2-100''"
    by (simp add: USP_SNPRINTF_def broker_unique_str_def)
  have n: "(1 + 1 :: 32 word) = 2" by simp
  have m: "MAX_MSG_ID_LEN example_env = 64" by (simp add: example_env_def)
  show ?thesis
    unfolding CalcBrokerMessageId_def Let_def
    by (simp only: c1 n a b c d k s m)
qed

lemma HandleRegister_example:
  "USP_BROKER_HandleRegister example_env register_state
     (example_register [''Device.Bar.''] False) ''S2'' conn_controller =
     Some (registered_state, registered_events)"
proof -
  have il: "(1::nat) < length (usp_services register_state)" by (simp add: register_state_def)
  have nr: "\<forall>p\<in>set [''Device.Bar.'']. \<not> path_refused example_env (usp_services register_state) p"
    by (simp add: path_refused_def register_state_owned validate_defs example_env_def)
  have loop: "register_paths_loop example_env (Some ''r1'') False 1 [''Device.Bar.'']
                (usp_services register_state) [] 0 =
              ([service_S1, service_S2\<lparr>registered_paths := [''Device.Bar.'']\<rparr>],
               CreateRegisterResp (Some ''r1'')
                 [\<lparr>requested_path = ''Device.Bar.'',
                   oper_status = OPER_STATUS_OPER_SUCCESS ''Device.Bar.''\<rparr>], 1)"
    using register_paths_loop_all_accepted [OF il nr, of "Some ''r1''" False "[]" 0]
    by (simp add: register_state_def service_S2_def)
  have st: "register_state\<lparr>usp_services := [service_S1, service_S2\<lparr>registered_paths := [''Device.Bar.'']\<rparr>]\<rparr>
            = \<lparr>usp_services = [service_S1, service_S2\<lparr>registered_paths := [''Device.Bar.'']\<rparr>], count = 1\<rparr>"
    by (simp add: register_state_def)
  have calc: "CalcBrokerMessageId example_env
           \<lparr>usp_services = [service_S1, service_S2\<lparr>registered_paths := [''Device.Bar.'']\<rparr>], count = 1\<rparr> 64 =
         (''BROKER-2-100'',
          \<lparr>usp_services = [service_S1, service_S2\<lparr>registered_paths := [''Device.Bar.'']\<rparr>], count = 2\<rparr>)"
    by (rule calc_example [of "\<lparr>usp_services = [service_S1, service_S2\<lparr>registered_paths := [''Device.Bar.'']\<rparr>], count = 1\<rparr>", simplified])
  have m: "MAX_MSG_ID_LEN example_env = 64" "add_schema_path_ok example_env ''Device.Bar.''"
    by (simp_all add: example_env_def)
  have q: "QueueGetSupportedDMToUspService example_env
             \<lparr>usp_services = [service_S1, service_S2\<lparr>registered_paths := [''Device.Bar.'']\<rparr>], count = 1\<rparr> 1 =
           (registered_state, tl registered_events)"
    unfolding QueueGetSupportedDMToUspService_def
    by (simp only: m calc Let_def split)
       (simp add: set_service_def registered_state_def registered_S2_def
          registered_events_def service_S2_def conn_controller_def add_schema_node_def m)
  have p2: "registered_paths (usp_services register_state ! 1) = []"
    by (simp add: register_state_def service_S2_def)
  show ?thesis
    using find_S2 p2 loop q
    by (simp add: USP_BROKER_HandleRegister_def example_register_facts register_paths_def st
          registered_events_def)
qed

text \<open>
  C7 as stated fails: when \<^verbatim>\<open>S2\<close> registers \<^verbatim>\<open>Device.Bar.\<close>, the RegisterResp is
  queued first, the GetSupportedDM request second, and the schema node for the accepted
  path is added last, not before the RegisterResp.
\<close>

theorem HandleRegister_order_counterexample:
  "USP_BROKER_HandleRegister example_env register_state
     (example_register [''Device.Bar.''] False) ''S2'' conn_controller =
     Some (registered_state,
       [MSG_HANDLER_QueueMessage ''S2''
          (CreateRegisterResp (Some ''r1'')
             [\<lparr>requested_path = ''Device.Bar.'',
               oper_status = OPER_STATUS_OPER_SUCCESS ''Device.Bar.''\<rparr>])
          conn_controller,
        MSG_HANDLER_QueueMessage ''S2''
          (CreateBroker_GetSupportedDMReq ''BROKER-2-100'' [''Device.Bar.''])
          (conn_controller\<lparr>handle := 4\<rparr>),
        DM_PRIV_AddSchemaPath ''Device.Bar.'' kDMNodeType_Object_SingleInstance,
        Node_SetGroup ''Device.Bar.'' 2 False])"
  using HandleRegister_example by (simp add: registered_events_def)

text \<open>The order theorem at that Register: its hypotheses hold and the calls are the stated ones.\<close>

theorem HandleRegister_order_witness:
  "USP_BROKER_HandleRegister example_env register_state
     (example_register [''Device.Bar.''] False) ''S2'' conn_controller =
     Some (registered_state, registered_events) \<and>
   registered_events =
     register_events_spec example_env ''S2'' conn_controller (Some ''r1'')
       [\<lparr>requested_path = ''Device.Bar.'',
         oper_status = OPER_STATUS_OPER_SUCCESS ''Device.Bar.''\<rparr>]
       ''BROKER-2-100'' (usp_services registered_state ! 1) \<and>
   FindUspServiceByEndpoint (usp_services registered_state) ''S2'' = Some 1 \<and>
   registered_paths (usp_services registered_state ! 1) = [''Device.Bar.'']"
proof -
  define usp where "usp = example_register [''Device.Bar.''] False"
  define reg where "reg = \<lparr>allow_partial = False, reg_paths = [''Device.Bar.'']\<rparr>"
  define h where "h = \<lparr>msg_id = Some ''r1'', msg_type = MSG_TYPE_REGISTER\<rparr>"
  have hh: "header usp = Some h" and rr: "register_of usp = Some reg"
    by (simp_all add: usp_def h_def reg_def example_register_facts)
  have valid: "\<not> (protocol conn_controller = kMtpProtocol_UDS \<and>
                   uds_path_type conn_controller = kUdsPathType_Invalid)"
    by (simp add: conn_controller_def)
  have p2: "registered_paths (usp_services register_state ! 1) = []"
    by (simp add: register_state_def service_S2_def)
  have first: "\<forall>i. FindUspServiceByEndpoint (usp_services register_state) ''S2'' = Some i \<longrightarrow>
                    registered_paths (usp_services register_state ! i) = []"
    using find_S2 p2 by simp
  have f: "FindUspServiceByEndpoint (usp_services registered_state) ''S2'' = Some 1"
    by (simp add: FindUspServiceByEndpoint_def registered_state_def registered_S2_def
          service_S1_def service_S2_def INVALID_def)
  have acc: "registered_paths (usp_services registered_state ! 1) = [''Device.Bar.'']"
    by (simp add: registered_state_def registered_S2_def)
  have conn: "protocol (controller_mtp (usp_services registered_state ! 1)) \<noteq> kMtpProtocol_None"
    by (simp add: registered_state_def registered_S2_def service_S2_def conn_controller_def)
  from HandleRegister_order [OF hh rr valid first, of example_env]
  obtain st' evs where t:
    "USP_BROKER_HandleRegister example_env register_state usp ''S2'' conn_controller = Some (st', evs)"
    "\<forall>i. FindUspServiceByEndpoint (usp_services st') ''S2'' = Some i \<and>
                registered_paths (usp_services st' ! i) \<noteq> [] \<and>
                protocol (controller_mtp (usp_services st' ! i)) \<noteq> kMtpProtocol_None \<longrightarrow>
                (\<exists>pre rs gid.
                   evs = pre @ register_events_spec example_env ''S2'' conn_controller (msg_id h) rs gid
                                 (usp_services st' ! i) \<and>
                   (\<forall>ev\<in>set pre. is_service_setup ev) \<and>
                   map requested_path rs = reg_paths reg \<and>
                   registered_paths (usp_services st' ! i) =
                     map requested_path (filter is_success rs) \<and>
                   gsdm_msg_id (usp_services st' ! i) = Some gid \<and>
                   endpoint_id (usp_services st' ! i) = ''S2'')"
    by blast
  have eq: "st' = registered_state" "evs = registered_events"
    using t(1) HandleRegister_example by (simp_all add: usp_def)
  from t(2) [unfolded eq] f acc conn
  obtain pre rs gid where s:
    "registered_events = pre @ register_events_spec example_env ''S2'' conn_controller (msg_id h) rs gid
                                 (usp_services registered_state ! 1)"
    by auto
  have spec: "registered_events =
     register_events_spec example_env ''S2'' conn_controller (Some ''r1'')
       [\<lparr>requested_path = ''Device.Bar.'',
         oper_status = OPER_STATUS_OPER_SUCCESS ''Device.Bar.''\<rparr>]
       ''BROKER-2-100'' (usp_services registered_state ! 1)"
    by (simp add: registered_events_def register_events_spec_def registered_state_def
          registered_S2_def service_S2_def add_schema_node_def example_env_def)
  show ?thesis using HandleRegister_example spec f acc s by simp
qed

subsection \<open>Starting an asynchronous command\<close>

lemma find_first_lt: "find_first P xs = Some i \<Longrightarrow> i < length xs"
  by (induction xs arbitrary: i) (auto split: if_splits)

lemma find_group_update:
  assumes "FindUspServiceByGroupId svcs gid = Some i"
  shows "FindUspServiceByGroupId (svcs[i := (svcs ! i)\<lparr>req_map := rm\<rparr>]) gid = Some i"
  using assms unfolding FindUspServiceByGroupId_def
proof (induction svcs arbitrary: i)
  case Nil then show ?case by simp
next
  case (Cons a svcs)
  then show ?case by (cases i) (auto split: if_splits)
qed

lemma unlink_last: "unlink (xs @ [x]) (length xs) = xs"
  by (simp add: unlink_def)

lemma CreateBroker_OperateReq_eq:
  "CreateBroker_OperateReq e st path key args = (operate_request e st path key args, counted st)"
  by (simp add: CreateBroker_OperateReq_def operate_request_def counted_def
        CalcBrokerMessageId_def Let_def)

lemma operate_request_with_request:
  "operate_request e (with_request st i inst p k) path key args = operate_request e st path key args"
  by (simp add: operate_request_def CreateBroker_OperateReq_def CalcBrokerMessageId_def Let_def
        with_request_def)

lemma remove_request_with_request:
  assumes "i < length (usp_services st)"
  shows "remove_request (counted (with_request st i inst p k)) i (length (req_map (usp_services st ! i)))
         = counted st"
proof -
  have "(usp_services st)[i := usp_services st ! i] = usp_services st" by simp
  moreover have "(usp_services st ! i)\<lparr>req_map := req_map (usp_services st ! i)\<rparr> = usp_services st ! i"
    by simp
  ultimately show ?thesis using assms
    by (simp add: remove_request_def counted_def with_request_def set_service_def
          ReqMap_Remove_def unlink_last)
qed

lemma remove_request_with_request0:
  assumes "i < length (usp_services st)"
  shows "remove_request (with_request st i inst p k) i (length (req_map (usp_services st ! i))) = st"
proof -
  have "(usp_services st)[i := usp_services st ! i] = usp_services st" by simp
  moreover have "(usp_services st ! i)\<lparr>req_map := req_map (usp_services st ! i)\<rparr> = usp_services st ! i"
    by simp
  ultimately show ?thesis using assms
    by (simp add: remove_request_def with_request_def set_service_def
          ReqMap_Remove_def unlink_last)
qed


lemma with_request_nth:
  "i < length (usp_services st) \<Longrightarrow>
   usp_services (with_request st i inst p k) ! i =
     (usp_services st ! i)\<lparr>req_map := req_map (usp_services st ! i) @
        [\<lparr>request_instance = inst, rmap_path = p, command_key = k\<rparr>]\<rparr>"
  by (simp add: with_request_def)

lemma Send_with_request:
  assumes owner: "FindUspServiceByGroupId (usp_services st) gid = Some i"
    and us: "us = usp_services st ! i"
  shows "SendOperateAndProcessResponse e (with_request st i inst p k) gid path is_sync key args =
     (if protocol (controller_mtp us) = kMtpProtocol_None
      then Some (USP_ERR_INTERNAL_ERROR, [], False, with_request st i inst p k, [])
      else case operate_reply e (with_request st i inst p k) us path key args of
             None \<Rightarrow> Some (USP_ERR_INTERNAL_ERROR, [], False, counted (with_request st i inst p k),
                           [operate_sent e st us path key args])
           | Some resp \<Rightarrow>
               (case ProcessOperateResponse e resp path is_sync of
                  None \<Rightarrow> None
                | Some (err, output_args, is_complete) \<Rightarrow>
                    Some (err, output_args, is_complete, counted (with_request st i inst p k),
                          [operate_sent e st us path key args])))"
proof -
  have il: "i < length (usp_services st)"
    using owner by (simp add: FindUspServiceByGroupId_def find_first_lt)
  have f: "FindUspServiceByGroupId (usp_services (with_request st i inst p k)) gid = Some i"
    using find_group_update [OF owner] by (simp add: with_request_def)
  show ?thesis
    unfolding SendOperateAndProcessResponse_def
    by (simp add: f with_request_nth [OF il] us CreateBroker_OperateReq_eq
          operate_request_with_request operate_reply_def operate_sent_def Let_def
          split: option.splits)
qed

lemma Process_req_obj_path:
  "reply_for e resp path (OPERATION_RESP_REQ_OBJ_PATH p) \<Longrightarrow>
   ProcessOperateResponse e resp path False = Some (USP_ERR_OK, [], False)"
  by (simp add: reply_for_def ProcessOperateResponse_def)

lemma Process_output_args:
  "reply_for e resp path (OPERATION_RESP_REQ_OUTPUT_ARGS out) \<Longrightarrow>
   ProcessOperateResponse e resp path is_sync = Some (USP_ERR_OK, out, True)"
  by (simp add: reply_for_def ProcessOperateResponse_def)

lemma Broker_AsyncOperate_started:
  assumes owner: "FindUspServiceByGroupId (usp_services st) (dm_group_id req) = Some i"
    and us: "us = usp_services st ! i"
    and sub: "SubsMap_FindByPath e (subs_map us) (dm_path req) \<noteq> None"
    and key: "get_parameter_value e (command_key_path e inst) = (USP_ERR_OK, k)"
    and uniq: "ReqMap_Find (req_map us) (dm_path req) k = None"
  shows "Broker_AsyncOperate e st req args inst =
     (case SendOperateAndProcessResponse e (with_request st i inst (dm_path req) k)
             (dm_group_id req) (dm_path req) False k args of
        None \<Rightarrow> None
      | Some (err, output_args, is_complete, st2, evs) \<Rightarrow>
          if err \<noteq> USP_ERR_OK then Some (err, remove_request st2 i (length (req_map us)), evs)
          else if is_complete
          then Some (USP_ERR_OK, remove_request st2 i (length (req_map us)),
                     evs @ [USP_SIGNAL_OperationStatus inst ''Active'',
                            USP_SIGNAL_OperationComplete inst USP_ERR_OK output_args])
          else Some (USP_ERR_OK, st2, evs @ [USP_SIGNAL_OperationStatus inst ''Active'']))"
proof -
  obtain j where j: "SubsMap_FindByPath e (subs_map (usp_services st ! i)) (dm_path req) = Some j"
    using sub us by auto
  have w: "set_service st i ((usp_services st ! i)\<lparr>req_map := req_map (usp_services st ! i) @
             [\<lparr>request_instance = inst, rmap_path = dm_path req, command_key = k\<rparr>]\<rparr>)
           = with_request st i inst (dm_path req) k"
    by (simp add: set_service_def with_request_def)
  show ?thesis
    using uniq unfolding us Broker_AsyncOperate_def
    by (simp add: owner j key ReqMap_Add_def Let_def w)
qed


lemma Broker_AsyncOperate_refused:
  assumes owner: "FindUspServiceByGroupId (usp_services st) (dm_group_id req) = Some i"
    and us: "us = usp_services st ! i"
    and key: "get_parameter_value e (command_key_path e inst) = (kerr, k)"
  shows "SubsMap_FindByPath e (subs_map us) (dm_path req) = None \<Longrightarrow>
           Broker_AsyncOperate e st req args inst = Some (USP_ERR_REQUEST_DENIED, st, [])"
    and "SubsMap_FindByPath e (subs_map us) (dm_path req) \<noteq> None \<Longrightarrow> kerr \<noteq> USP_ERR_OK \<Longrightarrow>
           Broker_AsyncOperate e st req args inst = Some (kerr, st, [])"
    and "SubsMap_FindByPath e (subs_map us) (dm_path req) \<noteq> None \<Longrightarrow> kerr = USP_ERR_OK \<Longrightarrow>
         ReqMap_Find (req_map us) (dm_path req) k \<noteq> None \<Longrightarrow>
           Broker_AsyncOperate e st req args inst = Some (USP_ERR_REQUEST_DENIED, st, [])"
  unfolding us Broker_AsyncOperate_def
  by (auto simp: owner key Let_def)

text \<open>
  C4, as amended: for every invocation of the asynchronous Operate hook for a command
  whose group has an owning Service: if no entry of the Service's subs\_map matches the
  path of the command, the hook returns REQUEST\_DENIED, makes no call and leaves the
  state as it is; so it does, with the error of the read, if the command key of the
  Request row cannot be read, and, with REQUEST\_DENIED, if the req\_map already holds
  the pair of the path and the command key. Otherwise the entry (request instance, path,
  command key) is appended to the req\_map before the request is sent: the request is
  sent, and the response awaited, in the state \<open>started\<close> whose req\_map holds the entry
  (\<open>reply\<close> is what the Service answers in that state), and the hook returns the error
  code of \<^verbatim>\<open>SendOperateAndProcessResponse\<close> run there, whose calls come first and which
  leaves the table as it found it. If the connection to the Service is down, nothing is
  sent and the entry is removed; if no response arrives, the entry is removed; on a
  valid response for the command carrying a request path the Request row is signalled
  Active and the entry stays; on one carrying output arguments the row is signalled
  Active, then complete with these arguments, and the entry is removed. Whenever the
  hook returns an error, the table of Services is as before the call, and at most the
  request was sent.
\<close>

theorem Broker_AsyncOperate_outcomes:
  assumes owner: "FindUspServiceByGroupId (usp_services st) (dm_group_id req) = Some i"
    and us: "us = usp_services st ! i"
    and key: "get_parameter_value e (command_key_path e inst) = (kerr, k)"
    and started: "started = with_request st i inst (dm_path req) k"
    and sent: "sent = operate_sent e st us (dm_path req) k args"
    and reply: "reply = operate_reply e started us (dm_path req) k args"
    and result: "result = Broker_AsyncOperate e st req args inst"
  shows
    "(SubsMap_FindByPath e (subs_map us) (dm_path req) = None \<longrightarrow>
        result = Some (USP_ERR_REQUEST_DENIED, st, [])) \<and>
     (SubsMap_FindByPath e (subs_map us) (dm_path req) \<noteq> None \<and> kerr \<noteq> USP_ERR_OK \<longrightarrow>
        result = Some (kerr, st, [])) \<and>
     (SubsMap_FindByPath e (subs_map us) (dm_path req) \<noteq> None \<and> kerr = USP_ERR_OK \<and>
      ReqMap_Find (req_map us) (dm_path req) k \<noteq> None \<longrightarrow>
        result = Some (USP_ERR_REQUEST_DENIED, st, [])) \<and>
     (SubsMap_FindByPath e (subs_map us) (dm_path req) \<noteq> None \<and> kerr = USP_ERR_OK \<and>
      ReqMap_Find (req_map us) (dm_path req) k = None \<longrightarrow>
        req_map (usp_services started ! i) =
          req_map us @ [\<lparr>request_instance = inst, rmap_path = dm_path req, command_key = k\<rparr>] \<and>
        (\<forall>err out fin st2 evs.
            SendOperateAndProcessResponse e started (dm_group_id req) (dm_path req) False k args =
              Some (err, out, fin, st2, evs) \<longrightarrow>
            usp_services st2 = usp_services started \<and>
            (\<exists>st' evs'. result = Some (err, st', evs @ evs'))) \<and>
        (protocol (controller_mtp us) = kMtpProtocol_None \<longrightarrow>
            result = Some (USP_ERR_INTERNAL_ERROR, st, [])) \<and>
        (protocol (controller_mtp us) \<noteq> kMtpProtocol_None \<and> reply = None \<longrightarrow>
            result = Some (USP_ERR_INTERNAL_ERROR, counted st, [sent])) \<and>
        (\<forall>resp p. protocol (controller_mtp us) \<noteq> kMtpProtocol_None \<and> reply = Some resp \<and>
            reply_for e resp (dm_path req) (OPERATION_RESP_REQ_OBJ_PATH p) \<longrightarrow>
            result = Some (USP_ERR_OK, counted started,
                           [sent, USP_SIGNAL_OperationStatus inst ''Active''])) \<and>
        (\<forall>resp out. protocol (controller_mtp us) \<noteq> kMtpProtocol_None \<and> reply = Some resp \<and>
            reply_for e resp (dm_path req) (OPERATION_RESP_REQ_OUTPUT_ARGS out) \<longrightarrow>
            result = Some (USP_ERR_OK, counted st,
                           [sent, USP_SIGNAL_OperationStatus inst ''Active'',
                            USP_SIGNAL_OperationComplete inst USP_ERR_OK out])) \<and>
        (\<forall>err st' evs. result = Some (err, st', evs) \<and> err \<noteq> USP_ERR_OK \<longrightarrow>
            usp_services st' = usp_services st \<and> (evs = [] \<or> evs = [sent])))"
proof (intro conjI impI)
  show "result = Some (USP_ERR_REQUEST_DENIED, st, [])"
    if "SubsMap_FindByPath e (subs_map us) (dm_path req) = None"
    using Broker_AsyncOperate_refused(1) [OF owner us key that] result by simp
next
  show "result = Some (kerr, st, [])"
    if "SubsMap_FindByPath e (subs_map us) (dm_path req) \<noteq> None \<and> kerr \<noteq> USP_ERR_OK"
    using Broker_AsyncOperate_refused(2) [OF owner us key] that result by simp
next
  show "result = Some (USP_ERR_REQUEST_DENIED, st, [])"
    if "SubsMap_FindByPath e (subs_map us) (dm_path req) \<noteq> None \<and> kerr = USP_ERR_OK \<and>
        ReqMap_Find (req_map us) (dm_path req) k \<noteq> None"
    using Broker_AsyncOperate_refused(3) [OF owner us key] that result by simp
next
  assume g: "SubsMap_FindByPath e (subs_map us) (dm_path req) \<noteq> None \<and> kerr = USP_ERR_OK \<and>
             ReqMap_Find (req_map us) (dm_path req) k = None"
  have il: "i < length (usp_services st)"
    using owner by (simp add: FindUspServiceByGroupId_def find_first_lt)
  have key': "get_parameter_value e (command_key_path e inst) = (USP_ERR_OK, k)"
    using key g by simp
  note run = Broker_AsyncOperate_started [OF owner us _ key', of args, folded started result]
  note snd = Send_with_request [OF owner us, of e inst "dm_path req" k "dm_path req" False k args,
               folded started sent, folded reply]
  have rc: "remove_request (counted started) i (length (req_map us)) = counted st"
    unfolding started us by (rule remove_request_with_request [OF il])
  have r0: "remove_request started i (length (req_map us)) = st"
    unfolding started us by (rule remove_request_with_request0 [OF il])
  show "req_map (usp_services started ! i) =
          req_map us @ [\<lparr>request_instance = inst, rmap_path = dm_path req, command_key = k\<rparr>]"
    unfolding started us by (simp add: with_request_nth [OF il])
  have res: "result =
     (case SendOperateAndProcessResponse e started (dm_group_id req) (dm_path req) False k args of
        None \<Rightarrow> None
      | Some (err, output_args, is_complete, st2, evs) \<Rightarrow>
          if err \<noteq> USP_ERR_OK then Some (err, remove_request st2 i (length (req_map us)), evs)
          else if is_complete
          then Some (USP_ERR_OK, remove_request st2 i (length (req_map us)),
                     evs @ [USP_SIGNAL_OperationStatus inst ''Active'',
                            USP_SIGNAL_OperationComplete inst USP_ERR_OK output_args])
          else Some (USP_ERR_OK, st2, evs @ [USP_SIGNAL_OperationStatus inst ''Active'']))"
    using run g by simp
  show "\<forall>err out fin st2 evs.
            SendOperateAndProcessResponse e started (dm_group_id req) (dm_path req) False k args =
              Some (err, out, fin, st2, evs) \<longrightarrow>
            usp_services st2 = usp_services started \<and>
            (\<exists>st' evs'. result = Some (err, st', evs @ evs'))"
  proof (intro allI impI conjI)
    fix err out fin st2 evs
    assume a: "SendOperateAndProcessResponse e started (dm_group_id req) (dm_path req) False k args =
              Some (err, out, fin, st2, evs)"
    show "usp_services st2 = usp_services started"
      using a unfolding snd
      by (auto simp: counted_def split: if_splits option.splits)
    show "\<exists>st' evs'. result = Some (err, st', evs @ evs')"
      unfolding res a by (cases "err = USP_ERR_OK"; cases fin) auto
  qed
  show "result = Some (USP_ERR_INTERNAL_ERROR, st, [])"
    if "protocol (controller_mtp us) = kMtpProtocol_None"
    unfolding res snd using that by (simp add: r0)
  show "result = Some (USP_ERR_INTERNAL_ERROR, counted st, [sent])"
    if "protocol (controller_mtp us) \<noteq> kMtpProtocol_None \<and> reply = None"
    unfolding res snd using that by (simp add: rc)
  show "\<forall>resp p. protocol (controller_mtp us) \<noteq> kMtpProtocol_None \<and> reply = Some resp \<and>
            reply_for e resp (dm_path req) (OPERATION_RESP_REQ_OBJ_PATH p) \<longrightarrow>
            result = Some (USP_ERR_OK, counted started,
                           [sent, USP_SIGNAL_OperationStatus inst ''Active''])"
    unfolding res snd by (auto simp: Process_req_obj_path)
  show "\<forall>resp out. protocol (controller_mtp us) \<noteq> kMtpProtocol_None \<and> reply = Some resp \<and>
            reply_for e resp (dm_path req) (OPERATION_RESP_REQ_OUTPUT_ARGS out) \<longrightarrow>
            result = Some (USP_ERR_OK, counted st,
                           [sent, USP_SIGNAL_OperationStatus inst ''Active'',
                            USP_SIGNAL_OperationComplete inst USP_ERR_OK out])"
    unfolding res snd by (auto simp: Process_output_args rc)
  show "\<forall>err st' evs. result = Some (err, st', evs) \<and> err \<noteq> USP_ERR_OK \<longrightarrow>
            usp_services st' = usp_services st \<and> (evs = [] \<or> evs = [sent])"
  proof -
    have uc: "usp_services (counted st) = usp_services st" by (simp add: counted_def)
    show ?thesis
      unfolding res snd
      by (auto simp: rc r0 uc split: if_splits option.splits)
  qed
qed

lemma calc_second_id:
  assumes c1: "count st = 1" and k: "clock e 2 = 100"
  shows "CalcBrokerMessageId e st 64 = (''BROKER-2-100'', st\<lparr>count := 2\<rparr>)"
proof -
  have a: "sint (2 :: 32 word) = 2" by simp
  have b: "unat (100 :: 32 word) = 100" by simp
  have c: "printf_d 2 = ''2''" by (simp add: printf_d_def digit_char_def)
  have d: "printf_u 100 = ''100''" by (simp add: digit_char_def)
  have s: "USP_SNPRINTF 64 (broker_unique_str @ ''-'' @ ''2'' @ ''-'' @ ''100'') = ''BROKER-2-100''"
    by (simp add: USP_SNPRINTF_def broker_unique_str_def)
  have n: "(1 + 1 :: 32 word) = 2" by simp
  show ?thesis
    unfolding CalcBrokerMessageId_def Let_def
    by (simp only: c1 n a b c d k s)
qed

lemma find_group_S1: "FindUspServiceByGroupId (usp_services example_state) 1 = Some 0"
  by (simp add: FindUspServiceByGroupId_def example_defs)

lemma S1_subscribed:
  "SubsMap_FindByPath example_env (subs_map service_S1) ''Device.Foo.Reboot()'' = Some 0"
  by (simp add: SubsMap_FindByPath_def service_S1_def example_env_def)

lemma operate_request_example:
  "operate_request operate_env example_state ''Device.Foo.Reboot()'' ''K2'' [] = reboot_request"
proof -
  have m: "MAX_MSG_ID_LEN operate_env = 64" by (simp add: operate_env_def example_env_def)
  have c: "CalcBrokerMessageId operate_env example_state 64 =
             (''BROKER-2-100'', example_state\<lparr>count := 2\<rparr>)"
    by (rule calc_second_id) (simp_all add: example_state_def operate_env_def example_env_def)
  show ?thesis
    by (simp add: operate_request_def CreateBroker_OperateReq_def m c reboot_request_def)
qed

text \<open>
  C4 as stated fails: \<open>S1\<close> has a subscription matching \<^verbatim>\<open>Device.Foo.Reboot()\<close>, but
  the command key of the Request row is the one of a request already in its req\_map;
  the hook returns REQUEST\_DENIED, no entry is inserted and no request is sent.
\<close>

theorem Broker_AsyncOperate_same_key_counterexample:
  "FindUspServiceByGroupId (usp_services example_state) 1 = Some 0 \<and>
   SubsMap_FindByPath same_key_env (subs_map (usp_services example_state ! 0))
     ''Device.Foo.Reboot()'' = Some 0 \<and>
   Broker_AsyncOperate same_key_env example_state
     \<lparr>dm_path = ''Device.Foo.Reboot()'', dm_group_id = 1\<rparr> [] 8 =
     Some (USP_ERR_REQUEST_DENIED, example_state, [])"
proof -
  have s: "SubsMap_FindByPath same_key_env (subs_map (usp_services example_state ! 0))
             ''Device.Foo.Reboot()'' = Some 0"
    by (simp add: SubsMap_FindByPath_def example_state_def service_S1_def same_key_env_def
          example_env_def)
  have k: "get_parameter_value same_key_env p = (USP_ERR_OK, ''K'')" for p
    by (simp add: same_key_env_def)
  have r: "ReqMap_Find (req_map (usp_services example_state ! 0)) ''Device.Foo.Reboot()'' ''K'' = Some 0"
    by (simp add: ReqMap_Find_def example_state_def service_S1_def)
  show ?thesis
    by (simp add: Broker_AsyncOperate_def find_group_S1 s k r)
qed

text \<open>
  The outcomes at a command that starts: the guards pass, the Service, which answers
  only if it finds the entry for row 8 in the req\_map when the request is sent, answers
  with a request path, the entry stays and the row is signalled Active.
\<close>

theorem Broker_AsyncOperate_outcomes_witness:
  "FindUspServiceByGroupId (usp_services example_state) (dm_group_id reboot_req) = Some 0 \<and>
   SubsMap_FindByPath operate_env (subs_map service_S1) (dm_path reboot_req) = Some 0 \<and>
   get_parameter_value operate_env (command_key_path operate_env 8) = (USP_ERR_OK, ''K2'') \<and>
   ReqMap_Find (req_map service_S1) (dm_path reboot_req) ''K2'' = None \<and>
   Broker_AsyncOperate operate_env example_state reboot_req [] 8 =
     Some (USP_ERR_OK, operating_state,
           [DM_EXEC_SendRequestAndWaitForResponse ''S1'' reboot_request conn_controller
              MSG_TYPE_OPERATE_RESP,
            USP_SIGNAL_OperationStatus 8 ''Active''])"
proof -
  have owner: "FindUspServiceByGroupId (usp_services example_state) (dm_group_id reboot_req) = Some 0"
    by (simp add: reboot_req_def find_group_S1)
  have us: "service_S1 = usp_services example_state ! 0" by (simp add: example_state_def)
  have key: "get_parameter_value operate_env (command_key_path operate_env 8) = (USP_ERR_OK, ''K2'')"
    by (simp add: operate_env_def example_env_def)
  have sub: "SubsMap_FindByPath operate_env (subs_map service_S1) (dm_path reboot_req) = Some 0"
    by (simp add: SubsMap_FindByPath_def service_S1_def operate_env_def example_env_def
          reboot_req_def)
  have uniq: "ReqMap_Find (req_map service_S1) (dm_path reboot_req) ''K2'' = None"
    by (simp add: ReqMap_Find_def service_S1_def reboot_req_def)
  have conn: "protocol (controller_mtp service_S1) \<noteq> kMtpProtocol_None"
    by (simp add: service_S1_def conn_controller_def)
  have p: "dm_path reboot_req = ''Device.Foo.Reboot()''" by (simp add: reboot_req_def)
  have reply: "operate_reply operate_env
                 (with_request example_state 0 8 (dm_path reboot_req) ''K2'') service_S1
                 (dm_path reboot_req) ''K2'' [] =
                 Some operate_response"
    by (simp add: operate_reply_def operate_env_def counted_def with_request_def
          example_state_def service_S1_def ReqMap_Find_def p)
  have rf: "reply_for operate_env operate_response (dm_path reboot_req)
              (OPERATION_RESP_REQ_OBJ_PATH ''Device.LocalAgent.Request.3.'')"
    by (simp add: reply_for_def operate_env_def example_env_def operate_response_def
          MSG_HANDLER_CreateResponseMsg_def operate_resp_of_def reboot_req_def)
  have sent: "operate_sent operate_env example_state service_S1 (dm_path reboot_req) ''K2'' [] =
                DM_EXEC_SendRequestAndWaitForResponse ''S1'' reboot_request conn_controller
                  MSG_TYPE_OPERATE_RESP"
    by (simp add: operate_sent_def p operate_request_example) (simp add: service_S1_def)
  have fin: "counted (with_request example_state 0 8 (dm_path reboot_req) ''K2'') = operating_state"
    by (simp add: counted_def with_request_def example_state_def operating_state_def p
          service_S1_def)
  from Broker_AsyncOperate_outcomes [OF owner us key refl refl refl refl, of "[]"]
  have "Broker_AsyncOperate operate_env example_state reboot_req [] 8 =
          Some (USP_ERR_OK, counted (with_request example_state 0 8 (dm_path reboot_req) ''K2''),
                [operate_sent operate_env example_state service_S1 (dm_path reboot_req) ''K2'' [],
                 USP_SIGNAL_OperationStatus 8 ''Active''])"
    using sub uniq conn reply rf by blast
  then show ?thesis using owner sub key uniq by (simp add: sent fin)
qed

end
